theory Spec2Isabelle
  imports Main "HOL-Library.Multiset" "HOL-Library.Sublist"
begin

section \<open>JavaScript strings\<close>

text \<open>
  A JavaScript string is a sequence of UTF-16 code units: \<open>length\<close>, \<open>charCodeAt\<close>,
  \<open>includes\<close>, \<open>split\<close>, \<open>trim\<close> and the regular expressions of the sources (none has the
  \<open>u\<close> flag) all work on code units. A code unit is a number below 65536; nothing in the
  program does arithmetic on one, so it is a \<open>nat\<close> here. A character outside the Basic
  Multilingual Plane is stored as two code units, a surrogate pair.
\<close>

type_synonym jsstring = "nat list"

definition js :: "string \<Rightarrow> jsstring" where
  "js s = map of_char s"

definition utf16 :: "nat \<Rightarrow> jsstring" where
  "utf16 cp =
     (if cp < 65536 then [cp]
      else [55296 + (cp - 65536) div 1024, 56320 + (cp - 65536) mod 1024])"

definition isHighSurrogate :: "nat \<Rightarrow> bool" where
  "isHighSurrogate c = (55296 \<le> c \<and> c \<le> 56319)"

definition isLowSurrogate :: "nat \<Rightarrow> bool" where
  "isLowSurrogate c = (56320 \<le> c \<and> c \<le> 57343)"

text \<open>
  \<open>for (const char of str)\<close> iterates by code point: a high surrogate followed by a low
  surrogate is one two-unit string, every other code unit is a one-unit string.
\<close>

fun codePoints :: "jsstring \<Rightarrow> jsstring list" where
  "codePoints [] = []"
| "codePoints [c] = [[c]]"
| "codePoints (c # d # cs) =
     (if isHighSurrogate c \<and> isLowSurrogate d then [c, d] # codePoints cs
      else [c] # codePoints (d # cs))"

text \<open>The white space of \<open>\s\<close>, \<open>trim\<close> and \<open>parseInt\<close> (WhiteSpace and LineTerminator).\<close>

definition isSpace :: "nat \<Rightarrow> bool" where
  "isSpace c =
     (c = 9 \<or> c = 10 \<or> c = 11 \<or> c = 12 \<or> c = 13 \<or> c = 32 \<or> c = 160 \<or> c = 5760
      \<or> (8192 \<le> c \<and> c \<le> 8202) \<or> c = 8232 \<or> c = 8233 \<or> c = 8239 \<or> c = 8287
      \<or> c = 12288 \<or> c = 65279)"

definition trim :: "jsstring \<Rightarrow> jsstring" where
  "trim s = rev (dropWhile isSpace (rev (dropWhile isSpace s)))"

fun startsWith :: "jsstring \<Rightarrow> jsstring \<Rightarrow> bool" where
  "startsWith s [] = True"
| "startsWith [] (p # ps) = False"
| "startsWith (c # cs) (p # ps) = (c = p \<and> startsWith cs ps)"

fun includes_js :: "jsstring \<Rightarrow> jsstring \<Rightarrow> bool" where
  "includes_js [] sub = (sub = [])"
| "includes_js (c # cs) sub = (startsWith (c # cs) sub \<or> includes_js cs sub)"

text \<open>\<open>str.split("\n")\<close>: the pieces between line feeds; never an empty array.\<close>

fun split_nl :: "jsstring \<Rightarrow> jsstring list" where
  "split_nl [] = [[]]"
| "split_nl (c # cs) =
     (if c = 10 then [] # split_nl cs
      else (case split_nl cs of [] \<Rightarrow> [[c]] | l # ls \<Rightarrow> (c # l) # ls))"

text \<open>\<open>arr.join("\n")\<close>.\<close>

fun join_nl :: "jsstring list \<Rightarrow> jsstring" where
  "join_nl [] = []"
| "join_nl [l] = l"
| "join_nl (l # m # ls) = l @ 10 # join_nl (m # ls)"

text \<open>\<open>str.repeat(n)\<close> for a count that is not negative (a negative one is a RangeError).\<close>

definition repeat :: "jsstring \<Rightarrow> nat \<Rightarrow> jsstring" where
  "repeat s n = concat (replicate n s)"

section \<open>src/utils.js: the text layout utility\<close>

text \<open>
  \<open>getVisualWidth\<close>: the loop over \<open>i < str.length\<close> reads \<open>str.charCodeAt(i)\<close>, a code unit,
  and adds 2 when it is above 255, else 1.
\<close>

definition getVisualWidth :: "jsstring \<Rightarrow> nat" where
  "getVisualWidth str = foldl (\<lambda>width code. width + (if code > 255 then 2 else 1)) 0 str"

text \<open>
  The \<open>process\<close> argument: \<open>process && process.stdout && process.stdout.columns\<close>. Each of
  the three may be missing (\<open>None\<close>); a column count of 0 is falsy as well.
\<close>

datatype stdout = Stdout (columns: "int option")

datatype process = Process (stdout: "stdout option")

definition terminalColumns :: "process option \<Rightarrow> int" where
  "terminalColumns p =
     (case p of
        Some (Process (Some (Stdout (Some c)))) \<Rightarrow> if c \<noteq> 0 then c else 80
      | _ \<Rightarrow> 80)"

text \<open>
  \<open>const limit = maxWidth || Math.min(80, cols - 12)\<close>. The argument \<open>maxWidth\<close> is
  \<open>None\<close> when it is \<open>undefined\<close> (or \<open>NaN\<close>); 0 is falsy too.
\<close>

definition wrapLimit :: "int option \<Rightarrow> process option \<Rightarrow> int" where
  "wrapLimit maxWidth p =
     (case maxWidth of
        Some m \<Rightarrow> if m \<noteq> 0 then m else min 80 (terminalColumns p - 12)
      | None \<Rightarrow> min 80 (terminalColumns p - 12))"

text \<open>
  The inner loop of \<open>wrapText\<close> over the characters of one paragraph; its state is the
  \<open>lines\<close> array, \<open>currentLine\<close> and \<open>currentWidth\<close>. After the loop the current line is
  pushed.
\<close>

fun wrapChars :: "int \<Rightarrow> jsstring list \<Rightarrow> jsstring list \<Rightarrow> jsstring \<Rightarrow> nat \<Rightarrow> jsstring list" where
  "wrapChars limit [] lines currentLine currentWidth = lines @ [currentLine]"
| "wrapChars limit (char # rest) lines currentLine currentWidth =
     (let charWidth = getVisualWidth char in
      if int (currentWidth + charWidth) > limit
      then wrapChars limit rest (lines @ [currentLine]) char charWidth
      else wrapChars limit rest lines (currentLine @ char) (currentWidth + charWidth))"

fun wrapParagraphs :: "int \<Rightarrow> jsstring list \<Rightarrow> jsstring list \<Rightarrow> jsstring list" where
  "wrapParagraphs limit [] lines = lines"
| "wrapParagraphs limit (paragraph # rest) lines =
     wrapParagraphs limit rest (wrapChars limit (codePoints paragraph) lines [] 0)"

definition wrapText :: "jsstring \<Rightarrow> int option \<Rightarrow> process option \<Rightarrow> jsstring" where
  "wrapText text maxWidth p =
     (if text = [] then []
      else join_nl (wrapParagraphs (wrapLimit maxWidth p) (split_nl text) []))"

text \<open>
  \<open>boxMessage\<close>: the wrapped lines, the widths computed from them, the three kinds of
  rows pushed onto \<open>out\<close>, and the rows joined by line feeds. The glyphs of the frame are
  U+250C, U+2500, U+2510, U+2502, U+2514 and U+2518.
\<close>

definition boxLines :: "jsstring \<Rightarrow> process option \<Rightarrow> jsstring list" where
  "boxLines text p = split_nl (wrapText text (Some (min 80 (terminalColumns p - 4))) p)"

definition contentWidth :: "jsstring \<Rightarrow> jsstring \<Rightarrow> process option \<Rightarrow> nat" where
  "contentWidth title text p =
     max (foldl (\<lambda>cw l. if getVisualWidth l > cw then getVisualWidth l else cw) 0 (boxLines text p))
         (getVisualWidth title + 2)"

definition boxWidth :: "jsstring \<Rightarrow> jsstring \<Rightarrow> process option \<Rightarrow> nat" where
  "boxWidth title text p = contentWidth title text p + 2"

definition rightDashes :: "jsstring \<Rightarrow> jsstring \<Rightarrow> process option \<Rightarrow> int" where
  "rightDashes title text p = int (boxWidth title text p) - int (getVisualWidth title) - 3"

definition padding :: "jsstring \<Rightarrow> jsstring \<Rightarrow> process option \<Rightarrow> jsstring \<Rightarrow> int" where
  "padding title text p line = int (boxWidth title text p) - int (getVisualWidth line) - 1"

definition topWithTitle :: "jsstring \<Rightarrow> jsstring \<Rightarrow> process option \<Rightarrow> jsstring" where
  "topWithTitle title text p =
     [9484, 9472, 32] @ title @ [32] @ repeat [9472] (nat (max 0 (rightDashes title text p)))
       @ [9488]"

definition contentRow :: "jsstring \<Rightarrow> jsstring \<Rightarrow> process option \<Rightarrow> jsstring \<Rightarrow> jsstring" where
  "contentRow title text p line =
     [9474, 32] @ line @ repeat [32] (nat (max 0 (padding title text p line))) @ [9474]"

definition bottomBorder :: "jsstring \<Rightarrow> jsstring \<Rightarrow> process option \<Rightarrow> jsstring" where
  "bottomBorder title text p = [9492] @ repeat [9472] (boxWidth title text p) @ [9496]"

definition boxOut :: "jsstring \<Rightarrow> jsstring \<Rightarrow> process option \<Rightarrow> jsstring list" where
  "boxOut title text p =
     topWithTitle title text p # map (contentRow title text p) (boxLines text p)
       @ [bottomBorder title text p]"

definition boxMessage :: "jsstring \<Rightarrow> jsstring \<Rightarrow> process option \<Rightarrow> jsstring" where
  "boxMessage title text p = join_nl (boxOut title text p)"

text \<open>
  The width a line of the frame renders to: a box-drawing glyph (U+2500 to U+257F) is
  one column, every other code unit what \<open>getVisualWidth\<close> counts for it.
\<close>

definition isBoxDrawing :: "nat \<Rightarrow> bool" where
  "isBoxDrawing c = (9472 \<le> c \<and> c \<le> 9599)"

definition renderedWidth :: "jsstring \<Rightarrow> nat" where
  "renderedWidth s = sum_list (map (\<lambda>c. if isBoxDrawing c then 1 else if c > 255 then 2 else 1) s)"

section \<open>bin/commit-cat.mjs: the display of a failed model call\<close>

text \<open>
  The \<open>catch\<close> block of step 3 of \<open>main\<close> cleans \<open>e.message\<close> with two regular
  expressions. Both have the \<open>s\<close> flag (the dot matches every code unit) and no others.
\<close>

definition lit429 :: jsstring where
  "lit429 = js ''[429 Too Many Requests]''"

text \<open>The nine code units of \<open>[{"@type"\<close>; 34 is the double quote.\<close>

definition typeMarker :: jsstring where
  "typeMarker = [91, 123, 34, 64, 116, 121, 112, 101, 34]"

text \<open>
  The lookahead \<open>(?=\s*\[\{"@type")\<close> at a position: the greedy \<open>\s*\<close> takes all the
  white space there, and giving some of it back cannot help, as the next thing to match
  is a bracket.
\<close>

definition lookaheadType :: "jsstring \<Rightarrow> bool" where
  "lookaheadType s = startsWith (dropWhile isSpace s) typeMarker"

text \<open>The lazy \<open>.*?\<close> before the lookahead: the shortest stretch after which it holds.\<close>

fun lazyUntilType :: "jsstring \<Rightarrow> jsstring option" where
  "lazyUntilType [] = (if lookaheadType [] then Some [] else None)"
| "lazyUntilType (c # cs) =
     (if lookaheadType (c # cs) then Some []
      else map_option ((#) c) (lazyUntilType cs))"

text \<open>
  \<open>originalMsg.match(/(\[429 Too Many Requests\].*?)(?=\s*\[\{"@type")/s)\<close>: group 1 of
  the leftmost match, \<open>None\<close> for \<open>null\<close>.
\<close>

fun match429 :: "jsstring \<Rightarrow> jsstring option" where
  "match429 [] = None"
| "match429 (c # cs) =
     (if startsWith (c # cs) lit429
      then (case lazyUntilType (drop (length lit429) (c # cs)) of
              Some t \<Rightarrow> Some (lit429 @ t)
            | None \<Rightarrow> match429 cs)
      else match429 cs)"

text \<open>\<open>str.split(sep)[0]\<close> for a separator that is not empty: what stands before its first occurrence.\<close>

fun beforeFirst :: "jsstring \<Rightarrow> jsstring \<Rightarrow> jsstring" where
  "beforeFirst sep [] = []"
| "beforeFirst sep (c # cs) = (if startsWith (c # cs) sep then [] else c # beforeFirst sep cs)"

definition isDigit :: "nat \<Rightarrow> bool" where
  "isDigit c = (48 \<le> c \<and> c \<le> 57)"

text \<open>
  \<open>/\[(4\d{2}|5\d{2})\s+.*?\](.*?)(?=\[|\n|$)/s\<close> at one start position, the whole match:
  a bracket, 4 or 5, two digits, white space, anything up to the first closing bracket,
  then anything up to the next opening bracket, line feed or the end of the input.
\<close>

definition statusAt :: "jsstring \<Rightarrow> jsstring option" where
  "statusAt s =
     (case s of
        b # d1 # d2 # d3 # sp # rest \<Rightarrow>
          if b = 91 \<and> (d1 = 52 \<or> d1 = 53) \<and> isDigit d2 \<and> isDigit d3 \<and> isSpace sp \<and> 93 \<in> set rest
          then Some ([b, d1, d2, d3, sp] @ takeWhile (\<lambda>c. c \<noteq> 93) rest @ [93]
                 @ takeWhile (\<lambda>c. c \<noteq> 91 \<and> c \<noteq> 10) (drop 1 (dropWhile (\<lambda>c. c \<noteq> 93) rest)))
          else None
      | _ \<Rightarrow> None)"

fun statusMatch :: "jsstring \<Rightarrow> jsstring option" where
  "statusMatch [] = None"
| "statusMatch (c # cs) =
     (case statusAt (c # cs) of Some m \<Rightarrow> Some m | None \<Rightarrow> statusMatch cs)"

text \<open>\<open>displayMsg\<close> as the \<open>catch\<close> block leaves it; \<open>originalMsg\<close> is \<open>e.message || ""\<close>.\<close>

definition displayMsg :: "jsstring \<Rightarrow> jsstring" where
  "displayMsg originalMsg =
     (if includes_js originalMsg (js ''429'') \<or> includes_js originalMsg (js ''Too Many Requests'')
      then (case match429 originalMsg of
              Some m1 \<Rightarrow> if m1 \<noteq> [] then trim m1 else trim (beforeFirst typeMarker originalMsg)
            | None \<Rightarrow> trim (beforeFirst typeMarker originalMsg))
      else (case statusMatch originalMsg of
              Some m0 \<Rightarrow> trim m0
            | None \<Rightarrow> originalMsg))"

text \<open>What \<open>p.note\<close> is given: \<open>wrapText(displayMsg, 0, process)\<close>.\<close>

definition shownError :: "jsstring \<Rightarrow> process option \<Rightarrow> jsstring" where
  "shownError originalMsg p = wrapText (displayMsg originalMsg) (Some 0) p"

section \<open>Paths (node:path, POSIX) and case folding\<close>

text \<open>
  \<open>path.extname\<close>: the extension of the last path component, from its last dot on; empty
  when the component has no dot, when nothing stands before its last dot (a dot file), or
  when it is \<open>..\<close>. Trailing slashes are not part of the component.
\<close>

definition lastComponent :: "jsstring \<Rightarrow> jsstring" where
  "lastComponent p = rev (takeWhile (\<lambda>c. c \<noteq> 47) (dropWhile (\<lambda>c. c = 47) (rev p)))"

definition extname :: "jsstring \<Rightarrow> jsstring" where
  "extname p =
     (let b = lastComponent p;
          suffix = rev (takeWhile (\<lambda>c. c \<noteq> 46) (rev b));
          stem = take (length b - length suffix - 1) b
      in if 46 \<notin> set b \<or> stem = [] \<or> b = [46, 46] then [] else 46 # suffix)"

text \<open>
  \<open>toLowerCase\<close> on the letters A to Z and on the Kelvin sign, the one other code unit
  that folds to a single ASCII letter (k). The other code units are left as they are; the
  program only compares the result with ASCII extensions, and that comparison comes out
  the same.
\<close>

definition toLowerCase :: "jsstring \<Rightarrow> jsstring" where
  "toLowerCase s = map (\<lambda>c. if 65 \<le> c \<and> c \<le> 90 then c + 32 else if c = 8490 then 107 else c) s"

section \<open>The diff collector (the collector with size caps, filed under src/ui.js)\<close>

definition MAX_FILE_SIZE :: nat where
  "MAX_FILE_SIZE = 30000"

definition MAX_TOTAL_SIZE :: nat where
  "MAX_TOTAL_SIZE = 100000"

definition IGNORE_PATTERNS :: "jsstring list" where
  "IGNORE_PATTERNS =
     [js ''package-lock.json'', js ''yarn.lock'', js ''pnpm-lock.yaml'', js ''bun.lockb'',
      js ''.map'', js ''dist/'', js ''build/'', js ''.DS_Store'']"

definition BINARY_EXTENSIONS :: "jsstring list" where
  "BINARY_EXTENSIONS =
     [js ''.png'', js ''.jpg'', js ''.jpeg'', js ''.gif'', js ''.ico'', js ''.svg'', js ''.woff'',
      js ''.woff2'', js ''.ttf'', js ''.eot'', js ''.mp4'', js ''.mov'', js ''.mp3'', js ''.zip'',
      js ''.tar'', js ''.gz'', js ''.pdf'']"

text \<open>
  What the collector reads of the machine: \<open>fs.statSync(file).size\<close> and the output of
  \<open>git diff --staged\<close> for a path. Each call may throw: \<open>None\<close> for the first (no such
  file, as for a staged deletion), \<open>Inl\<close> with the error's message for the second.
\<close>

record repo =
  statSize :: "jsstring \<Rightarrow> nat option"
  gitDiffStaged :: "jsstring \<Rightarrow> jsstring + jsstring"

datatype diff_result = Skip (reason: string) | Content (content: jsstring)

text \<open>
  \<open>getFileDiff\<close> of the collector. The whole body is in one \<open>try\<close>, and \<open>fs.statSync\<close> is its
  first statement: when it throws, the \<open>catch\<close> answers before any filter is looked at.
\<close>

definition getFileDiff :: "repo \<Rightarrow> jsstring \<Rightarrow> diff_result" where
  "getFileDiff r file =
     (case statSize r file of
        None \<Rightarrow> Skip ''error reading''
      | Some fileSize \<Rightarrow>
          if list_ex (\<lambda>pattern. includes_js file pattern) IGNORE_PATTERNS then Skip ''ignored''
          else if toLowerCase (extname file) \<in> set BINARY_EXTENSIONS then Skip ''binary''
          else if fileSize > MAX_FILE_SIZE then Skip ''too large''
          else (case gitDiffStaged r file of
                  Inl e \<Rightarrow> Skip ''error reading''
                | Inr diff \<Rightarrow>
                    if length diff > MAX_FILE_SIZE then Skip ''diff too large''
                    else Content diff))"

text \<open>The loop of step 3 of \<open>main\<close>; its state is the three variables it updates.\<close>

record collected =
  fullDiff :: jsstring
  totalSize :: nat
  skippedFiles :: "jsstring list"

definition skipEntry :: "jsstring \<Rightarrow> string \<Rightarrow> jsstring" where
  "skipEntry file why = file @ js '' ('' @ js why @ js '')''"

definition diffEntry :: "jsstring \<Rightarrow> jsstring \<Rightarrow> jsstring" where
  "diffEntry file c = js ''--- '' @ file @ [10] @ js ''+++ '' @ file @ [10] @ c @ [10]"

definition collectStep :: "repo \<Rightarrow> collected \<Rightarrow> jsstring \<Rightarrow> collected" where
  "collectStep r st file =
     (if totalSize st \<ge> MAX_TOTAL_SIZE
      then st\<lparr>skippedFiles := skippedFiles st @ [skipEntry file ''Total Limit'']\<rparr>
      else (case getFileDiff r file of
              Skip why \<Rightarrow> st\<lparr>skippedFiles := skippedFiles st @ [skipEntry file why]\<rparr>
            | Content c \<Rightarrow>
                if totalSize st + length c > MAX_TOTAL_SIZE
                then st\<lparr>skippedFiles := skippedFiles st @ [skipEntry file ''Total Limit'']\<rparr>
                else st\<lparr>fullDiff := fullDiff st @ diffEntry file c,
                        totalSize := totalSize st + length c\<rparr>))"

definition collectDiffs :: "repo \<Rightarrow> jsstring list \<Rightarrow> collected" where
  "collectDiffs r stagedFiles =
     foldl (collectStep r) \<lparr>fullDiff = [], totalSize = 0, skippedFiles = []\<rparr> stagedFiles"

text \<open>
  The diffs the loop puts into the payload, in order, for a loop that starts with the
  running total \<open>running\<close>: the same tests as \<open>collectStep\<close>, keeping each accepted pair of
  path and diff text instead of gluing it to \<open>fullDiff\<close>.
\<close>

fun includedDiffs :: "repo \<Rightarrow> nat \<Rightarrow> jsstring list \<Rightarrow> (jsstring \<times> jsstring) list" where
  "includedDiffs r running [] = []"
| "includedDiffs r running (file # rest) =
     (if running \<ge> MAX_TOTAL_SIZE then includedDiffs r running rest
      else (case getFileDiff r file of
              Skip why \<Rightarrow> includedDiffs r running rest
            | Content c \<Rightarrow>
                if running + length c > MAX_TOTAL_SIZE then includedDiffs r running rest
                else (file, c) # includedDiffs r (running + length c) rest))"

section \<open>src/git.js\<close>

text \<open>The lists of src/config.js, which src/git.js imports.\<close>

definition CONFIG_IGNORE_PATTERNS :: "jsstring list" where
  "CONFIG_IGNORE_PATTERNS =
     [js ''package-lock.json'', js ''yarn.lock'', js ''pnpm-lock.yaml'', js ''dist'', js ''build'',
      js ''.next'', js ''node_modules'', js ''.git'']"

definition CONFIG_BINARY_EXTENSIONS :: "jsstring list" where
  "CONFIG_BINARY_EXTENSIONS =
     [js ''.png'', js ''.jpg'', js ''.jpeg'', js ''.gif'', js ''.ico'', js ''.pdf'', js ''.zip'',
      js ''.tar'', js ''.gz'', js ''.mp3'', js ''.mp4'', js ''.mov'', js ''.woff'', js ''.woff2'',
      js ''.ttf'', js ''.eot'']"

text \<open>
  \<open>getFileDiff\<close> of src/git.js answers with a text, never with a skip reason: a
  placeholder for a binary or ignored path (the extension is tested first), the diff, or
  a placeholder for an empty diff or an error. It reads no file size.
\<close>

definition gitGetFileDiff :: "(jsstring \<Rightarrow> jsstring + jsstring) \<Rightarrow> jsstring \<Rightarrow> jsstring" where
  "gitGetFileDiff execDiff filePath =
     (if toLowerCase (extname filePath) \<in> set CONFIG_BINARY_EXTENSIONS
      then js ''(Binary file: '' @ filePath @ js '')''
      else if list_ex (\<lambda>p. includes_js filePath p) CONFIG_IGNORE_PATTERNS
      then js ''(Ignored file: '' @ filePath @ js '')''
      else (case execDiff filePath of
              Inl e \<Rightarrow> js ''(Error reading diff for '' @ filePath @ js '': '' @ e @ js '')''
            | Inr diff \<Rightarrow>
                if diff \<noteq> [] then diff
                else js ''(No content change or new empty file: '' @ filePath @ js '')''))"

section \<open>The working tree\<close>

text \<open>
  What \<open>fs.existsSync\<close>, \<open>fs.readFileSync\<close>, \<open>fs.writeFileSync\<close> and \<open>fs.unlinkSync\<close> see. A
  path has nothing, a regular file with its text, or something that exists and that
  \<open>readFileSync\<close> throws on (a directory, a file without read permission). Whether
  \<open>writeFileSync\<close> and \<open>unlinkSync\<close> succeed at a path is part of the state as well: a
  directory cannot be written as a file, a file in a read-only directory can be neither
  created nor removed.
\<close>

datatype fnode = RegularFile jsstring | Unreadable

record filesystem =
  node :: "jsstring \<Rightarrow> fnode option"
  writable :: "jsstring \<Rightarrow> bool"
  removable :: "jsstring \<Rightarrow> bool"

text \<open>An ordinary working directory: every path can be written and removed.\<close>

definition plainTree :: "(jsstring \<Rightarrow> fnode option) \<Rightarrow> filesystem" where
  "plainTree m = \<lparr>node = m, writable = (\<lambda>p. True), removable = (\<lambda>p. True)\<rparr>"

definition existsSync :: "filesystem \<Rightarrow> jsstring \<Rightarrow> bool" where
  "existsSync t p = (node t p \<noteq> None)"

text \<open>\<open>None\<close> is the call throwing, here and below.\<close>

definition readFileSync :: "filesystem \<Rightarrow> jsstring \<Rightarrow> jsstring option" where
  "readFileSync t p = (case node t p of Some (RegularFile txt) \<Rightarrow> Some txt | _ \<Rightarrow> None)"

text \<open>
  \<open>writeFileSync\<close> creates the file or replaces its text. Written over something that
  cannot be read, the path still cannot be read.
\<close>

definition writeFileSync :: "filesystem \<Rightarrow> jsstring \<Rightarrow> jsstring \<Rightarrow> filesystem option" where
  "writeFileSync t p txt =
     (if \<not> writable t p then None
      else (case node t p of
              Some Unreadable \<Rightarrow> Some t
            | _ \<Rightarrow> Some (t\<lparr>node := (node t)(p \<mapsto> RegularFile txt)\<rparr>)))"

definition unlinkSync :: "filesystem \<Rightarrow> jsstring \<Rightarrow> filesystem option" where
  "unlinkSync t p =
     (if existsSync t p \<and> removable t p then Some (t\<lparr>node := (node t)(p := None)\<rparr>) else None)"

section \<open>src/git.js: comment syntax and the editor\<close>

definition getCommentSyntax :: "jsstring \<Rightarrow> jsstring \<Rightarrow> jsstring" where
  "getCommentSyntax fp msg =
     (let ext = toLowerCase (extname fp);
          todoText = js ''TODO: [AI] '' @ msg
      in if ext \<in> set [js ''.yml'', js ''.yaml'', js ''.py'', js ''.sh'', js ''.rb'',
                         js ''.dockerfile'', js ''.toml'']
         then js ''# '' @ todoText
         else if ext \<in> set [js ''.css'', js ''.scss'', js ''.less'', js ''.saas'']
         then js ''/* '' @ todoText @ js '' */''
         else if ext \<in> set [js ''.html'', js ''.xml'', js ''.md'', js ''.jsx'', js ''.tsx'']
                 \<and> ext = js ''.md''
         then js ''<!-- '' @ todoText @ js '' -->''
         else js ''// '' @ todoText)"

text \<open>
  \<open>spawnSync(editor, [tempFile], {stdio: "inherit"})\<close>: the editor is any program; it
  turns the working tree into another one. \<open>None\<close> is the call throwing.
\<close>

type_synonym editor = "filesystem \<Rightarrow> jsstring \<Rightarrow> filesystem option"

text \<open>
  \<open>editCommitMessage\<close>, with \<open>tempFile\<close> the path it computes. It returns the message and
  leaves the working tree changed. The first \<open>writeFileSync\<close> stands before the \<open>try\<close>: when
  it throws, the exception leaves the function, which is the result \<open>None\<close>. The \<open>catch\<close>
  block, reached when \<open>spawnSync\<close>, \<open>readFileSync\<close> or \<open>unlinkSync\<close> throws, returns the
  initial message and has no \<open>unlinkSync\<close>; the function has no \<open>finally\<close>.
\<close>

definition editCommitMessage ::
    "editor \<Rightarrow> jsstring \<Rightarrow> filesystem \<Rightarrow> jsstring \<Rightarrow> (jsstring \<times> filesystem) option" where
  "editCommitMessage spawnEditor tempFile tree initialMessage =
     (case writeFileSync tree tempFile initialMessage of
        None \<Rightarrow> None
      | Some written \<Rightarrow>
          Some (case spawnEditor written tempFile of
                  None \<Rightarrow> (initialMessage, written)
                | Some edited \<Rightarrow>
                    if existsSync edited tempFile
                    then (case readFileSync edited tempFile of
                            None \<Rightarrow> (initialMessage, edited)
                          | Some newText \<Rightarrow>
                              (case unlinkSync edited tempFile of
                                 None \<Rightarrow> (initialMessage, edited)
                               | Some removed \<Rightarrow> (trim newText, removed)))
                    else (initialMessage, edited)))"

section \<open>bin/commit-cat.mjs: the suggestion injector\<close>

record finding =
  message :: jsstring
  filePath :: jsstring
  lineNumber :: "jsstring option"
  contextLine :: "jsstring option"

text \<open>
  \<open>parseInt(str)\<close> with no radix: leading white space, a sign, then decimal digits, or
  hexadecimal ones after \<open>0x\<close>; what follows the digits is ignored. \<open>None\<close> is \<open>NaN\<close>.
\<close>

definition isHexDigit :: "nat \<Rightarrow> bool" where
  "isHexDigit c = (isDigit c \<or> (97 \<le> c \<and> c \<le> 102) \<or> (65 \<le> c \<and> c \<le> 70))"

definition digitValue :: "nat \<Rightarrow> nat" where
  "digitValue c = (if isDigit c then c - 48 else if 97 \<le> c then c - 87 else c - 55)"

definition parseInt :: "jsstring \<Rightarrow> int option" where
  "parseInt s =
     (let t = dropWhile isSpace s;
          negative = (case t of [] \<Rightarrow> False | c # cs \<Rightarrow> c = 45);
          u = (case t of [] \<Rightarrow> [] | c # cs \<Rightarrow> if c = 45 \<or> c = 43 then cs else t);
          hex = (case u of a # b # cs \<Rightarrow> a = 48 \<and> (b = 120 \<or> b = 88) | _ \<Rightarrow> False);
          ds = (if hex then takeWhile isHexDigit (drop 2 u) else takeWhile isDigit u);
          n = foldl (\<lambda>acc d. acc * (if hex then 16 else 10) + digitValue d) 0 ds
      in if ds = [] then None else Some (if negative then - int n else int n))"

text \<open>\<open>lines[l]\<close> for a number \<open>l\<close>: \<open>None\<close> is \<open>undefined\<close>.\<close>

definition lineAt :: "jsstring list \<Rightarrow> int \<Rightarrow> jsstring option" where
  "lineAt ls l = (if 0 \<le> l \<and> l < int (length ls) then Some (ls ! nat l) else None)"

text \<open>\<open>lines.splice(i, 0, x)\<close> for an index within the array.\<close>

definition splice :: "jsstring list \<Rightarrow> nat \<Rightarrow> jsstring \<Rightarrow> jsstring list" where
  "splice ls i x = take i ls @ x # drop i ls"

text \<open>\<open>lines.findIndex(pred)\<close>: \<open>None\<close> is -1.\<close>

fun findIndex :: "(jsstring \<Rightarrow> bool) \<Rightarrow> jsstring list \<Rightarrow> nat option" where
  "findIndex P [] = None"
| "findIndex P (l # ls) = (if P l then Some 0 else map_option Suc (findIndex P ls))"

text \<open>
  The two attempts of the \<open>forEach\<close> body on the lines of the file. Both tests on the
  finding (\<open>if (item.contextLine)\<close>, \<open>item.lineNumber\<close>) and the test \<open>if (lines[l])\<close> are
  truthiness tests: an empty string fails them as a missing value does.
\<close>

definition injectByContext :: "finding \<Rightarrow> jsstring list \<Rightarrow> jsstring \<Rightarrow> jsstring list option" where
  "injectByContext item ls todo =
     (case contextLine item of
        None \<Rightarrow> None
      | Some ctx \<Rightarrow>
          if ctx = [] then None
          else (case findIndex (\<lambda>l. includes_js l (trim ctx)) ls of
                  None \<Rightarrow> None
                | Some lineIdx \<Rightarrow>
                    Some (splice ls lineIdx (takeWhile isSpace (ls ! lineIdx) @ todo))))"

definition injectByLine :: "finding \<Rightarrow> jsstring list \<Rightarrow> jsstring \<Rightarrow> jsstring list option" where
  "injectByLine item ls todo =
     (case lineNumber item of
        None \<Rightarrow> None
      | Some num \<Rightarrow>
          if num = [] then None
          else (case parseInt num of
                  None \<Rightarrow> None
                | Some n \<Rightarrow>
                    (case lineAt ls (n - 1) of
                       None \<Rightarrow> None
                     | Some target \<Rightarrow>
                         if target = [] then None else Some (splice ls (nat (n - 1)) todo))))"

definition injectTodo :: "finding \<Rightarrow> jsstring list \<Rightarrow> jsstring \<Rightarrow> jsstring list \<times> bool" where
  "injectTodo item ls todo =
     (case injectByContext item ls todo of
        Some ls' \<Rightarrow> (ls', True)
      | None \<Rightarrow>
          (case injectByLine item ls todo of
             Some ls' \<Rightarrow> (ls', True)
           | None \<Rightarrow> (ls, False)))"

text \<open>
  One round of the \<open>forEach\<close> body on the working tree: the new tree and \<open>injected\<close>.
  \<open>None\<close> is \<open>readFileSync\<close> or \<open>writeFileSync\<close> throwing, which nothing catches.
\<close>

definition applySuggestion :: "filesystem \<Rightarrow> finding \<Rightarrow> (filesystem \<times> bool) option" where
  "applySuggestion tree item =
     (if \<not> existsSync tree (filePath item) then Some (tree, False)
      else (case readFileSync tree (filePath item) of
              None \<Rightarrow> None
            | Some txt \<Rightarrow>
                (case injectTodo item (split_nl txt) (getCommentSyntax (filePath item) (message item)) of
                   (ls', injected) \<Rightarrow>
                     if injected
                     then (case writeFileSync tree (filePath item) (join_nl ls') of
                             None \<Rightarrow> None
                           | Some tree' \<Rightarrow> Some (tree', True))
                     else Some (tree, False))))"

text \<open>
  \<open>selected.forEach\<close>: the state is the working tree, \<open>appliedCount\<close> and the set
  \<open>indicesToRemove\<close>. \<open>Inl\<close> is an exception leaving the loop (a file that cannot be read
  or written, or an index that is no suggestion's), with the state reached.
\<close>

record applying =
  tree :: filesystem
  appliedCount :: nat
  indicesToRemove :: "nat set"

fun applySelected :: "finding list \<Rightarrow> nat list \<Rightarrow> applying \<Rightarrow> applying + applying" where
  "applySelected sugg [] st = Inr st"
| "applySelected sugg (idx # rest) st =
     (if idx \<ge> length sugg then Inl st
      else (case applySuggestion (tree st) (sugg ! idx) of
              None \<Rightarrow> Inl st
            | Some (tree', injected) \<Rightarrow>
                applySelected sugg rest
                  (if injected
                   then st\<lparr>tree := tree', appliedCount := appliedCount st + 1,
                           indicesToRemove := insert idx (indicesToRemove st)\<rparr>
                   else st)))"

text \<open>\<open>review.suggestions.filter((_, i) => !indicesToRemove.has(i))\<close>.\<close>

definition removeApplied :: "finding list \<Rightarrow> nat set \<Rightarrow> finding list" where
  "removeApplied sugg rm = map snd (filter (\<lambda>(i, s). i \<notin> rm) (enumerate 0 sugg))"

section \<open>bin/commit-cat.mjs: the action loop\<close>

datatype action = Commit | Edit | Issues | Cancel

text \<open>A prompt returns a value or the cancel symbol.\<close>

datatype 'a prompt = Answered 'a | CancelSymbol

text \<open>
  What the outside gives one pass of the loop: whether \<open>git commit\<close> succeeds, what the
  editor does, the answers to the multiselect and to the confirm prompt, and whether
  \<open>git add .\<close> succeeds.
\<close>

record answers =
  commitOk :: bool
  spawnEditor :: editor
  selectedIdx :: "nat list prompt"
  commitNow :: "bool prompt"
  addOk :: bool

datatype turn = SelectCancelled | Chose action answers

record session =
  currentMessage :: jsstring
  suggestions :: "finding list"
  worktree :: filesystem
  stagedTree :: filesystem


text \<open>
  One pass of \<open>while (true)\<close>: back at the top of the loop, \<open>process.exit\<close> with a code, or
  an exception that leaves \<open>main\<close>.
\<close>

datatype loop_step = BackToMenu session | Finished nat session | Threw session

definition issuesAction :: "session \<Rightarrow> answers \<Rightarrow> loop_step" where
  "issuesAction s a =
     (case selectedIdx a of
        CancelSymbol \<Rightarrow> Finished 0 s
      | Answered sel \<Rightarrow>
          if sel = [] then BackToMenu s
          else (case applySelected (suggestions s) sel
                       \<lparr>tree = worktree s, appliedCount = 0, indicesToRemove = {}\<rparr> of
                  Inl st \<Rightarrow> Threw (s\<lparr>worktree := tree st\<rparr>)
                | Inr st \<Rightarrow>
                    (let s' = s\<lparr>worktree := tree st,
                                suggestions := removeApplied (suggestions s) (indicesToRemove st)\<rparr>
                     in case commitNow a of
                          CancelSymbol \<Rightarrow> Finished 0 s'
                        | Answered True \<Rightarrow>
                            if addOk a then BackToMenu (s'\<lparr>stagedTree := worktree s'\<rparr>)
                            else Threw s'
                        | Answered False \<Rightarrow> Finished 0 s')))"

definition acting :: "jsstring \<Rightarrow> session \<Rightarrow> turn \<Rightarrow> loop_step" where
  "acting tempFile s t =
     (case t of
        SelectCancelled \<Rightarrow> Finished 0 s
      | Chose Cancel a \<Rightarrow> Finished 0 s
      | Chose Commit a \<Rightarrow> (if commitOk a then Finished 0 s else Finished 1 s)
      | Chose Edit a \<Rightarrow>
          (case editCommitMessage (spawnEditor a) tempFile (worktree s) (currentMessage s) of
             None \<Rightarrow> Threw s
           | Some (newMessage, tree') \<Rightarrow>
               BackToMenu (s\<lparr>currentMessage := newMessage, worktree := tree'\<rparr>))
      | Chose Issues a \<Rightarrow> issuesAction s a)"



text \<open>
  The findings one pass applied: the suggestions whose index the pass put into
  \<open>indicesToRemove\<close>. Over a script of turns, the findings applied until the loop ends or
  the script does.
\<close>

definition appliedBy :: "session \<Rightarrow> turn \<Rightarrow> finding list" where
  "appliedBy s t =
     (case t of
        Chose Issues a \<Rightarrow>
          (case selectedIdx a of
             CancelSymbol \<Rightarrow> []
           | Answered sel \<Rightarrow>
               if sel = [] then []
               else (case applySelected (suggestions s) sel
                            \<lparr>tree = worktree s, appliedCount = 0, indicesToRemove = {}\<rparr> of
                       Inl st \<Rightarrow> nths (suggestions s) (indicesToRemove st)
                     | Inr st \<Rightarrow> nths (suggestions s) (indicesToRemove st)))
      | _ \<Rightarrow> [])"

fun appliedInRun :: "jsstring \<Rightarrow> session \<Rightarrow> turn list \<Rightarrow> finding list" where
  "appliedInRun tempFile s [] = []"
| "appliedInRun tempFile s (t # ts) =
     appliedBy s t @
       (case acting tempFile s t of
          BackToMenu s' \<Rightarrow> appliedInRun tempFile s' ts
        | _ \<Rightarrow> [])"

section \<open>Proofs: the text layout utility\<close>

lemma foldl_width_acc:
  "foldl (\<lambda>width code. width + (if code > 255 then 2 else 1)) a s
   = a + foldl (\<lambda>width code. width + (if code > 255 then 2 else 1)) (0::nat) (s::nat list)"
proof (induction s arbitrary: a)
  case Nil
  show ?case by simp
next
  case (Cons c s)
  show ?case
    using Cons.IH [of "a + (if c > 255 then 2 else 1)"] Cons.IH [of "(if c > 255 then 2 else 1)"]
    by simp
qed

lemma getVisualWidth_Nil: "getVisualWidth [] = 0"
  by (simp add: getVisualWidth_def)

lemma getVisualWidth_Cons:
  "getVisualWidth (c # s) = (if c > 255 then 2 else 1) + getVisualWidth s"
  unfolding getVisualWidth_def
  using foldl_width_acc [of "(if c > 255 then 2 else 1)" s] by simp

lemma getVisualWidth_append:
  "getVisualWidth (a @ b) = getVisualWidth a + getVisualWidth b"
  by (induction a) (simp_all add: getVisualWidth_Nil getVisualWidth_Cons)

lemma getVisualWidth_sum:
  "getVisualWidth s = sum_list (map (\<lambda>code. if code > 255 then 2 else 1) s)"
  by (induction s) (simp_all add: getVisualWidth_Nil getVisualWidth_Cons)

lemma wrapChars_bound:
  assumes "\<forall>ch\<in>set chs. int (getVisualWidth ch) \<le> L"
    and "\<forall>l\<in>set lines. int (getVisualWidth l) \<le> L"
    and "w = getVisualWidth cur" and "int w \<le> L"
  shows "\<forall>l\<in>set (wrapChars L chs lines cur w). int (getVisualWidth l) \<le> L"
  using assms
proof (induction chs arbitrary: lines cur w)
  case Nil
  then show ?case by simp
next
  case (Cons ch chs)
  show ?case
  proof (cases "int (w + getVisualWidth ch) > L")
    case True
    have "\<forall>l\<in>set (wrapChars L chs (lines @ [cur]) ch (getVisualWidth ch)). int (getVisualWidth l) \<le> L"
      using Cons.prems by (intro Cons.IH) auto
    with True show ?thesis by (simp add: Let_def)
  next
    case False
    have "\<forall>l\<in>set (wrapChars L chs lines (cur @ ch) (w + getVisualWidth ch)). int (getVisualWidth l) \<le> L"
      using Cons.prems False by (intro Cons.IH) (auto simp: getVisualWidth_append)
    with False show ?thesis by (simp add: Let_def)
  qed
qed

lemma wrapParagraphs_bound:
  assumes "\<forall>para\<in>set paras. \<forall>ch\<in>set (codePoints para). int (getVisualWidth ch) \<le> L"
    and "\<forall>l\<in>set lines. int (getVisualWidth l) \<le> L" and "0 \<le> L"
  shows "\<forall>l\<in>set (wrapParagraphs L paras lines). int (getVisualWidth l) \<le> L"
  using assms
proof (induction paras arbitrary: lines)
  case Nil
  then show ?case by simp
next
  case (Cons para paras)
  have "\<forall>l\<in>set (wrapChars L (codePoints para) lines [] 0). int (getVisualWidth l) \<le> L"
    using Cons.prems by (intro wrapChars_bound) (simp_all add: getVisualWidth_Nil)
  moreover have "\<forall>para\<in>set paras. \<forall>ch\<in>set (codePoints para). int (getVisualWidth ch) \<le> L"
    using Cons.prems(1) by simp
  ultimately have "\<forall>l\<in>set (wrapParagraphs L paras (wrapChars L (codePoints para) lines [] 0)).
      int (getVisualWidth l) \<le> L"
    using Cons.prems(3) by (intro Cons.IH)
  then show ?case by simp
qed

lemma codePoints_concat: "concat (codePoints s) = s"
  by (induction s rule: codePoints.induct) simp_all

lemma codePoints_latin1:
  "\<forall>c\<in>set s. c \<le> 255 \<Longrightarrow> \<forall>ch\<in>set (codePoints s). getVisualWidth ch = 1"
  by (induction s rule: codePoints.induct)
     (auto simp: getVisualWidth_Nil getVisualWidth_Cons isHighSurrogate_def)

lemma split_nl_nonempty: "split_nl s \<noteq> []"
  by (induction s) (auto split: list.splits)

lemma split_nl_set: "l \<in> set (split_nl s) \<Longrightarrow> set l \<subseteq> set s - {10}"
proof (induction s arbitrary: l)
  case Nil
  then show ?case by simp
next
  case (Cons c s)
  show ?case
  proof (cases "c = 10")
    case True
    with Cons show ?thesis by auto
  next
    case False
    obtain h t where ht: "split_nl s = h # t"
      using split_nl_nonempty [of s] by (cases "split_nl s") auto
    have h: "set h \<subseteq> set s - {10}" using Cons.IH [of h] ht by simp
    from Cons.prems False ht have "l = c # h \<or> l \<in> set t" by simp
    then show ?thesis
    proof
      assume "l = c # h"
      with h False show ?thesis by auto
    next
      assume "l \<in> set t"
      then have "set l \<subseteq> set s - {10}" using Cons.IH [of l] ht by simp
      then show ?thesis by auto
    qed
  qed
qed

lemma split_join_nl:
  "ls \<noteq> [] \<Longrightarrow> \<forall>l\<in>set ls. 10 \<notin> set l \<Longrightarrow> split_nl (join_nl ls) = ls"
proof (induction ls rule: join_nl.induct)
  case 1
  then show ?case by simp
next
  case (2 l)
  then show ?case by (induction l) (auto split: list.splits)
next
  case (3 l m ls)
  then have IH: "split_nl (join_nl (m # ls)) = m # ls" by simp
  from 3(3) have "10 \<notin> set l" by simp
  then have "split_nl (l @ 10 # join_nl (m # ls)) = l # m # ls"
    using IH by (induction l) (auto split: list.splits)
  then show ?case by simp
qed

lemma wrapChars_no_nl:
  assumes "\<forall>ch\<in>set chs. 10 \<notin> set ch" and "\<forall>l\<in>set lines. 10 \<notin> set l" and "10 \<notin> set cur"
  shows "\<forall>l\<in>set (wrapChars L chs lines cur w). 10 \<notin> set l"
  using assms
proof (induction chs arbitrary: lines cur w)
  case Nil
  then show ?case by simp
next
  case (Cons ch chs)
  have a: "\<forall>l\<in>set (wrapChars L chs (lines @ [cur]) ch (getVisualWidth ch)). 10 \<notin> set l"
    using Cons.prems by (intro Cons.IH) auto
  have b: "\<forall>l\<in>set (wrapChars L chs lines (cur @ ch) (w + getVisualWidth ch)). 10 \<notin> set l"
    using Cons.prems by (intro Cons.IH) auto
  show ?case using a b by (simp add: Let_def)
qed

lemma wrapChars_nonempty: "wrapChars L chs lines cur w \<noteq> []"
  by (induction chs arbitrary: lines cur w) (auto simp: Let_def)

lemma codePoints_set: "ch \<in> set (codePoints s) \<Longrightarrow> set ch \<subseteq> set s"
  proof -
  assume "ch \<in> set (codePoints s)"
  then have "set ch \<subseteq> set (concat (codePoints s))" by auto
  then show ?thesis by (simp add: codePoints_concat)
qed

lemma wrapParagraphs_no_nl:
  assumes "\<forall>para\<in>set paras. 10 \<notin> set para" and "\<forall>l\<in>set lines. 10 \<notin> set l"
  shows "\<forall>l\<in>set (wrapParagraphs L paras lines). 10 \<notin> set l"
  using assms
proof (induction paras arbitrary: lines)
  case Nil
  then show ?case by simp
next
  case (Cons para paras)
  have para: "10 \<notin> set para" using Cons.prems(1) by simp
  have "\<forall>ch\<in>set (codePoints para). 10 \<notin> set ch"
    using codePoints_set [of _ para] para by blast
  then have "\<forall>l\<in>set (wrapChars L (codePoints para) lines [] 0). 10 \<notin> set l"
    using Cons.prems(2) by (intro wrapChars_no_nl) simp_all
  moreover have "\<forall>para\<in>set paras. 10 \<notin> set para" using Cons.prems(1) by simp
  ultimately have "\<forall>l\<in>set (wrapParagraphs L paras (wrapChars L (codePoints para) lines [] 0)). 10 \<notin> set l"
    by (intro Cons.IH)
  then show ?case by simp
qed

lemma wrapParagraphs_nonempty: "paras \<noteq> [] \<or> lines \<noteq> [] \<Longrightarrow> wrapParagraphs L paras lines \<noteq> []"
  by (induction paras arbitrary: lines) (auto simp: wrapChars_nonempty)

lemma wrapText_lines:
  "text \<noteq> [] \<Longrightarrow>
   split_nl (wrapText text maxWidth p) = wrapParagraphs (wrapLimit maxWidth p) (split_nl text) []"
proof -
  assume "text \<noteq> []"
  have ne: "wrapParagraphs (wrapLimit maxWidth p) (split_nl text) [] \<noteq> []"
    by (rule wrapParagraphs_nonempty) (simp add: split_nl_nonempty)
  have "\<forall>para\<in>set (split_nl text). 10 \<notin> set para"
    using split_nl_set [of _ "text"] by auto
  then have "\<forall>l\<in>set (wrapParagraphs (wrapLimit maxWidth p) (split_nl text) []). 10 \<notin> set l"
    by (intro wrapParagraphs_no_nl) auto
  with ne \<open>text \<noteq> []\<close> show ?thesis
    by (simp add: wrapText_def split_join_nl)
qed

lemma js_simps: "js [] = []" "js (c # s) = of_char c # js s"
  by (simp_all add: js_def)

lemma wrapText_ascii_lines:
  assumes "\<forall>c\<in>set s. c < 128" and "0 < L"
  shows "\<forall>l\<in>set (split_nl (wrapText s (Some L) p)). int (getVisualWidth l) \<le> L"
proof (cases "s = []")
  case True
  with assms show ?thesis by (simp add: wrapText_def getVisualWidth_Nil)
next
  case False
  have lim: "wrapLimit (Some L) p = L" using assms(2) by (simp add: wrapLimit_def)
  have "\<forall>para\<in>set (split_nl s). \<forall>ch\<in>set (codePoints para). int (getVisualWidth ch) \<le> L"
  proof (intro ballI)
    fix para ch assume para: "para \<in> set (split_nl s)" and ch: "ch \<in> set (codePoints para)"
    have "\<forall>c\<in>set para. c \<le> 255" using split_nl_set [OF para] assms(1) by fastforce
    then have "getVisualWidth ch = 1" using codePoints_latin1 ch by blast
    with assms(2) show "int (getVisualWidth ch) \<le> L" by simp
  qed
  then have "\<forall>l\<in>set (wrapParagraphs L (split_nl s) []). int (getVisualWidth l) \<le> L"
    using assms(2) by (intro wrapParagraphs_bound) simp_all
  with False lim show ?thesis by (simp add: wrapText_lines)
qed

lemma utf16_width_bmp: "cp < 65536 \<Longrightarrow> getVisualWidth (utf16 cp) = (if cp > 255 then 2 else 1)"
  by (simp add: utf16_def getVisualWidth_Nil getVisualWidth_Cons)

lemma utf16_width_astral: "65536 \<le> cp \<Longrightarrow> getVisualWidth (utf16 cp) = 4"
  by (simp add: utf16_def getVisualWidth_Nil getVisualWidth_Cons)

text \<open>
  The width computation and the bound it gives. For every ASCII-only string and every
  positive explicit limit \<open>L\<close>, every line of the output of \<open>wrapText\<close> has computed visual
  width at most \<open>L\<close>. \<open>getVisualWidth\<close> counts per UTF-16 code unit, as \<open>charCodeAt\<close> reads the
  string: a code unit above 255 counts 2 and every other one counts 1, so a character of
  the Basic Multilingual Plane counts 2 when its code point is above 255 and 1 otherwise.
\<close>

theorem wrapText_ascii_bound:
  "((\<forall>c\<in>set s. c < 128) \<and> 0 < L \<longrightarrow>
      (\<forall>l\<in>set (split_nl (wrapText s (Some L) p)). int (getVisualWidth l) \<le> L))
   \<and> getVisualWidth str = sum_list (map (\<lambda>code. if code > 255 then 2 else 1) str)
   \<and> (cp < 65536 \<longrightarrow> getVisualWidth (utf16 cp) = (if cp > 255 then 2 else 1))"
  using wrapText_ascii_lines [of s L p] getVisualWidth_sum [of str] utf16_width_bmp [of cp]
  by blast

theorem wrapText_ascii_bound_witness:
  "list_all (\<lambda>c. c < 128) (js ''ab cdefg'') \<and> (0::int) < 3
   \<and> split_nl (wrapText (js ''ab cdefg'') (Some 3) None) = [js ''ab '', js ''cde'', js ''fg'']
   \<and> list_all (\<lambda>l. int (getVisualWidth l) \<le> 3) (split_nl (wrapText (js ''ab cdefg'') (Some 3) None))
   \<and> getVisualWidth (utf16 54620) = 2 \<and> getVisualWidth (utf16 65) = 1"
  using wrapText_ascii_bound [of "js ''ab cdefg''" 3 None "[]" 54620]
    wrapText_ascii_bound [of "[]" 3 None "[]" 65]
  by (simp add: list_all_iff js_simps wrapText_def wrapLimit_def isHighSurrogate_def
      getVisualWidth_Nil getVisualWidth_Cons)

text \<open>
  Claim C4 says that in the width computation every character whose code point exceeds
  255 counts as width 2, and the comment in \<open>getVisualWidth\<close> says the same. The character
  U+1F431, which the program prints in its own messages, has a code point above 255; in a
  JavaScript string it is the two code units 55357 and 56369, the loop over
  \<open>charCodeAt\<close> counts each of them, and the width computed for the one character is 4.
  \<open>wrapText\<close> iterates by character and asks \<open>getVisualWidth\<close> for each: with the limit 4
  the string of \<open>a\<close>, that character and \<open>b\<close>, which is 4 columns wide by the rule of the
  claim, is broken into three lines. The code evaluated at these inputs.
\<close>

theorem getVisualWidth_astral_C4:
  "(128049::nat) > 255
   \<and> utf16 128049 = [55357, 56369]
   \<and> codePoints [55357, 56369] = [[55357, 56369]]
   \<and> getVisualWidth [55357, 56369] = 4
   \<and> codePoints [97, 55357, 56369, 98] = [[97], [55357, 56369], [98]]
   \<and> split_nl (wrapText [97, 55357, 56369, 98] (Some 4) None) = [[97], [55357, 56369], [98]]"
  by (simp add: utf16_def wrapText_def wrapLimit_def isHighSurrogate_def isLowSurrogate_def
      getVisualWidth_Nil getVisualWidth_Cons)

text \<open>
  Claim C9, as the code has it. Called with no explicit limit (\<open>undefined\<close>, or the falsy 0
  that the callers pass), \<open>wrapText\<close> wraps at \<open>min(80, terminalColumns - 12)\<close>: it returns
  what the wrapping loop returns for that limit. \<open>terminalColumns\<close> is the column count of
  the terminal when it is known and not 0. When the terminal's dimensions are unknown (no
  \<open>process\<close>, no \<open>stdout\<close>, no \<open>columns\<close>, or 0 columns) the terminal counts as 80 columns
  wide, and the limit is then \<open>min(80, 80 - 12)\<close>, which is 68: the call behaves as on a
  terminal of 80 columns.
\<close>

theorem wrapText_default_limit_C9:
  "wrapLimit None p = min 80 (terminalColumns p - 12)
   \<and> wrapLimit (Some 0) p = min 80 (terminalColumns p - 12)
   \<and> wrapText t None p =
       (if t = [] then [] else join_nl (wrapParagraphs (min 80 (terminalColumns p - 12)) (split_nl t) []))
   \<and> wrapText t (Some 0) p = wrapText t None p
   \<and> (c \<noteq> 0 \<longrightarrow>
        terminalColumns (Some (Process (Some (Stdout (Some c))))) = c
        \<and> wrapLimit None (Some (Process (Some (Stdout (Some c))))) = min 80 (c - 12)
        \<and> wrapText t None (Some (Process (Some (Stdout (Some c)))))
            = (if t = [] then [] else join_nl (wrapParagraphs (min 80 (c - 12)) (split_nl t) [])))
   \<and> terminalColumns None = 80
   \<and> terminalColumns (Some (Process None)) = 80
   \<and> terminalColumns (Some (Process (Some (Stdout None)))) = 80
   \<and> terminalColumns (Some (Process (Some (Stdout (Some 0))))) = 80
   \<and> (p = None \<or> p = Some (Process None) \<or> p = Some (Process (Some (Stdout None)))
        \<or> p = Some (Process (Some (Stdout (Some 0)))) \<longrightarrow>
        wrapLimit None p = 68
        \<and> wrapText t None p = (if t = [] then [] else join_nl (wrapParagraphs 68 (split_nl t) []))
        \<and> wrapText t None p = wrapText t None (Some (Process (Some (Stdout (Some 80))))))"
  by (auto simp: wrapLimit_def wrapText_def terminalColumns_def)

theorem wrapText_default_limit_C9_witness:
  "(30::int) \<noteq> 0
   \<and> terminalColumns (Some (Process (Some (Stdout (Some 30))))) = 30
   \<and> wrapLimit None (Some (Process (Some (Stdout (Some 30))))) = 18
   \<and> split_nl (wrapText (js ''The quick brown fox jumps'') None (Some (Process (Some (Stdout (Some 30))))))
       = [js ''The quick brown fo'', js ''x jumps'']
   \<and> wrapLimit None (Some (Process (Some (Stdout (Some 200))))) = 80
   \<and> wrapLimit None (Some (Process None)) = 68
   \<and> wrapText (js ''The quick brown fox jumps'') None (Some (Process None))
       = js ''The quick brown fox jumps''"
proof -
  let ?t = "js ''The quick brown fox jumps''"
  have a: "terminalColumns (Some (Process (Some (Stdout (Some 30))))) = 30"
    and b: "wrapLimit None (Some (Process (Some (Stdout (Some 30))))) = 18"
    and c: "wrapText ?t None (Some (Process (Some (Stdout (Some 30)))))
        = (if ?t = [] then [] else join_nl (wrapParagraphs 18 (split_nl ?t) []))"
    using wrapText_default_limit_C9 [of None ?t 30] by simp_all
  have d: "wrapLimit None (Some (Process (Some (Stdout (Some 200))))) = 80"
    using wrapText_default_limit_C9 [of None ?t 200] by simp
  have e: "wrapLimit None (Some (Process None)) = 68"
    and f: "wrapText ?t None (Some (Process None))
        = (if ?t = [] then [] else join_nl (wrapParagraphs 68 (split_nl ?t) []))"
    using wrapText_default_limit_C9 [of "Some (Process None)" ?t 30] by simp_all
  have c': "split_nl (wrapText ?t None (Some (Process (Some (Stdout (Some 30))))))
      = [js ''The quick brown fo'', js ''x jumps'']"
    unfolding c
    by (simp add: js_simps isHighSurrogate_def getVisualWidth_Nil getVisualWidth_Cons)
  have f': "wrapText ?t None (Some (Process None)) = ?t"
    unfolding f
    by (simp add: js_simps isHighSurrogate_def getVisualWidth_Nil getVisualWidth_Cons)
  from a b c' d e f' show ?thesis by simp
qed

text \<open>
  Claim C9 as written has the fallback give 80 columns of usable width. With the
  terminal's dimensions unknown the limit is 68, not 80: a line of 70 letters, which
  fits in 80 columns, is broken after the 68th.
\<close>

theorem wrapText_default_limit_C9_counterexample:
  "wrapLimit None None = 68
   \<and> wrapLimit None None \<noteq> 80
   \<and> length (js ''aaaaaaaaaaaaaaaaaaaaaaaaaaaaaaaaaaaaaaaaaaaaaaaaaaaaaaaaaaaaaaaaaaaaaa'') = 70
   \<and> split_nl (wrapText (js ''aaaaaaaaaaaaaaaaaaaaaaaaaaaaaaaaaaaaaaaaaaaaaaaaaaaaaaaaaaaaaaaaaaaaaa'') None None)
       = [js ''aaaaaaaaaaaaaaaaaaaaaaaaaaaaaaaaaaaaaaaaaaaaaaaaaaaaaaaaaaaaaaaaaaaa'', js ''aa'']"
  by (simp add: wrapLimit_def wrapText_def terminalColumns_def js_simps isHighSurrogate_def
      getVisualWidth_Nil getVisualWidth_Cons)

lemma foldl_max_ge:
  "a \<le> foldl (\<lambda>cw l. if getVisualWidth l > cw then getVisualWidth l else cw) a ls"
proof (induction ls arbitrary: a)
  case Nil
  show ?case by simp
next
  case (Cons l ls)
  show ?case
    using Cons.IH [of "if getVisualWidth l > a then getVisualWidth l else a"]
    by (simp split: if_splits)
qed

lemma foldl_max_mem:
  "l \<in> set ls \<Longrightarrow>
   getVisualWidth l \<le> foldl (\<lambda>cw l. if getVisualWidth l > cw then getVisualWidth l else cw) a ls"
proof (induction ls arbitrary: a)
  case Nil
  then show ?case by simp
next
  case (Cons x ls)
  show ?case
  proof (cases "l = x")
    case True
    then show ?thesis
      using foldl_max_ge [of "if getVisualWidth x > a then getVisualWidth x else a" ls]
      by (simp split: if_splits)
  next
    case False
    with Cons.prems have "l \<in> set ls" by simp
    from Cons.IH [OF this] show ?thesis by simp
  qed
qed

lemma contentWidth_line: "l \<in> set (boxLines t p) \<Longrightarrow> getVisualWidth l \<le> contentWidth title t p"
  unfolding contentWidth_def using foldl_max_mem [of l "boxLines t p" 0] by simp

lemma contentWidth_title: "getVisualWidth title + 2 \<le> contentWidth title t p"
  unfolding contentWidth_def by simp

lemma length_repeat1: "length (repeat [c] n) = n"
  by (simp add: repeat_def length_concat sum_list_replicate)

lemma rightDashes_nonneg: "0 \<le> rightDashes title t p"
  using contentWidth_title [of title t p] by (simp add: rightDashes_def boxWidth_def)

lemma padding_nonneg: "l \<in> set (boxLines t p) \<Longrightarrow> 0 \<le> padding title t p l"
  using contentWidth_line [of l t p title] by (simp add: padding_def boxWidth_def)

section \<open>Proofs: the display of a failed model call\<close>

lemma wrapChars_fits:
  "int (w + getVisualWidth (concat chs)) \<le> L \<Longrightarrow>
   wrapChars L chs lines cur w = lines @ [cur @ concat chs]"
proof (induction chs arbitrary: cur w)
  case Nil
  show ?case by simp
next
  case (Cons ch chs)
  from Cons.prems have fit: "\<not> int (w + getVisualWidth ch) > L"
    by (simp add: getVisualWidth_append)
  from Cons.prems have "int ((w + getVisualWidth ch) + getVisualWidth (concat chs)) \<le> L"
    by (simp add: getVisualWidth_append add.assoc)
  from Cons.IH [OF this] fit show ?case by (simp add: Let_def)
qed

lemma split_nl_single: "10 \<notin> set s \<Longrightarrow> split_nl s = [s]"
  by (induction s) simp_all

lemma wrapText_fits:
  assumes "10 \<notin> set s" and "int (getVisualWidth s) \<le> wrapLimit maxWidth p"
  shows "wrapText s maxWidth p = s"
proof (cases "s = []")
  case True
  then show ?thesis by (simp add: wrapText_def)
next
  case False
  have "wrapChars (wrapLimit maxWidth p) (codePoints s) [] [] 0 = [] @ [[] @ concat (codePoints s)]"
    using assms(2) by (intro wrapChars_fits) (simp add: codePoints_concat)
  with False assms(1) show ?thesis
    by (simp add: wrapText_def split_nl_single codePoints_concat)
qed

lemma displayMsg_quota:
  "displayMsg (js ''[429 Too Many Requests] Quota exceeded'' @ [32] @ typeMarker @ rest)
   = js ''[429 Too Many Requests] Quota exceeded''"
  by (simp add: displayMsg_def js_simps lit429_def typeMarker_def lookaheadType_def isSpace_def trim_def)

lemma quota_plain:
  "10 \<notin> set (js ''[429 Too Many Requests] Quota exceeded'')"
  "getVisualWidth (js ''[429 Too Many Requests] Quota exceeded'') = 38"
  by (simp_all add: js_simps getVisualWidth_Nil getVisualWidth_Cons)

text \<open>
  Claim C3. A message that is \<open>[429 Too Many Requests] Quota exceeded\<close>, a space, and a
  diagnostic array that begins with \<open>[{"@type"\<close> (whatever follows it) is cleaned to
  exactly \<open>[429 Too Many Requests] Quota exceeded\<close>: everything from the white space before
  the array on is dropped. On a terminal of at least 50 columns (or of unknown width) the
  38 columns of the cleaned message fit the default wrapping limit, and the text handed to
  the note is that message unchanged.
\<close>

theorem displayMsg_429_C3:
  "displayMsg (js ''[429 Too Many Requests] Quota exceeded'' @ [32] @ typeMarker @ rest)
     = js ''[429 Too Many Requests] Quota exceeded''
   \<and> (50 \<le> terminalColumns p \<longrightarrow>
        shownError (js ''[429 Too Many Requests] Quota exceeded'' @ [32] @ typeMarker @ rest) p
          = js ''[429 Too Many Requests] Quota exceeded'')"
proof -
  have "50 \<le> terminalColumns p \<Longrightarrow>
        wrapText (js ''[429 Too Many Requests] Quota exceeded'') (Some 0) p
          = js ''[429 Too Many Requests] Quota exceeded''"
    by (intro wrapText_fits) (simp_all add: quota_plain wrapLimit_def)
  then show ?thesis
    unfolding shownError_def displayMsg_quota by blast
qed

theorem displayMsg_429_C3_witness:
  "(50::int) \<le> terminalColumns None
   \<and> shownError (js ''[429 Too Many Requests] Quota exceeded'' @ [32] @ typeMarker
        @ js '':type.googleapis.com/google.rpc.QuotaFailure}]'') None
      = js ''[429 Too Many Requests] Quota exceeded''
   \<and> displayMsg (js ''[429 Too Many Requests] Quota exceeded'' @ [32] @ typeMarker
        @ js '':type.googleapis.com/google.rpc.QuotaFailure}]'')
      = js ''[429 Too Many Requests] Quota exceeded''"
  using displayMsg_429_C3 [of "js '':type.googleapis.com/google.rpc.QuotaFailure}]''" None]
  by (simp add: terminalColumns_def)

section \<open>Proofs: the diff collector\<close>

lemma collect_acc:
  "totalSize (foldl (collectStep r) st files)
     = totalSize st + sum_list (map (\<lambda>(f, c). length c) (includedDiffs r (totalSize st) files))
   \<and> fullDiff (foldl (collectStep r) st files)
     = fullDiff st @ concat (map (\<lambda>(f, c). diffEntry f c) (includedDiffs r (totalSize st) files))"
proof (induction files arbitrary: st)
  case Nil
  show ?case by simp
next
  case (Cons f0 rest)
  show ?case
  proof (cases "totalSize st \<ge> MAX_TOTAL_SIZE")
    case True
    then show ?thesis
      using Cons.IH [of "collectStep r st f0"] by (simp add: collectStep_def)
  next
    case False
    show ?thesis
    proof (cases "getFileDiff r f0")
      case (Skip why)
      with False show ?thesis
        using Cons.IH [of "collectStep r st f0"] by (simp add: collectStep_def)
    next
      case (Content c)
      with False show ?thesis
        using Cons.IH [of "collectStep r st f0"] by (simp add: collectStep_def)
    qed
  qed
qed

lemma collectStep_total:
  "totalSize st \<le> MAX_TOTAL_SIZE \<Longrightarrow> totalSize (collectStep r st f) \<le> MAX_TOTAL_SIZE"
  by (simp add: collectStep_def split: diff_result.splits)

lemma collect_total:
  "totalSize st \<le> MAX_TOTAL_SIZE \<Longrightarrow> totalSize (foldl (collectStep r) st files) \<le> MAX_TOTAL_SIZE"
proof (induction files arbitrary: st)
  case Nil
  then show ?case by simp
next
  case (Cons f0 rest)
  from Cons.IH [OF collectStep_total [OF Cons.prems]] show ?case by simp
qed

lemma collect_full:
  "MAX_TOTAL_SIZE \<le> totalSize st \<Longrightarrow>
   foldl (collectStep r) st rest
     = st\<lparr>skippedFiles := skippedFiles st @ map (\<lambda>f. skipEntry f ''Total Limit'') rest\<rparr>"
proof (induction rest arbitrary: st)
  case Nil
  show ?case by simp
next
  case (Cons f0 rest)
  let ?st = "st\<lparr>skippedFiles := skippedFiles st @ [skipEntry f0 ''Total Limit'']\<rparr>"
  have step: "collectStep r st f0 = ?st" using Cons.prems by (simp add: collectStep_def)
  have "MAX_TOTAL_SIZE \<le> totalSize ?st" using Cons.prems by simp
  from Cons.IH [OF this] step show ?case by simp
qed

lemma included_subseq: "subseq (map fst (includedDiffs r running files)) files"
proof (induction files arbitrary: running)
  case Nil
  show ?case by simp
next
  case (Cons f0 rest)
  show ?case
    using Cons.IH [of running] Cons.IH [of "running + length (content (getFileDiff r f0))"]
    by (auto split: diff_result.splits)
qed

text \<open>
  Claim C1, as the code has it. The running total never exceeds the cap: it is the sum of
  the lengths of the diffs put into the payload, and at most \<open>MAX_TOTAL_SIZE\<close> (100000 code
  units). The included diffs keep the order of the listing. Once the running total has
  reached the cap, every remaining file is skipped with \<open>Total Limit\<close>, whatever its size
  and whatever a per-file filter would say. Below the cap, a file that a per-file filter
  rejects keeps that filter's reason; an accepted diff that would push the total above the
  cap is skipped with \<open>Total Limit\<close> and leaves the total unchanged, so a later file whose
  diff still fits is included; an accepted diff that fits is appended and counted.
\<close>

theorem collect_cap_C1:
  "totalSize (collectDiffs r files) \<le> MAX_TOTAL_SIZE
   \<and> totalSize (collectDiffs r files) = sum_list (map (\<lambda>(f, c). length c) (includedDiffs r 0 files))
   \<and> fullDiff (collectDiffs r files) = concat (map (\<lambda>(f, c). diffEntry f c) (includedDiffs r 0 files))
   \<and> subseq (map fst (includedDiffs r 0 files)) files
   \<and> (MAX_TOTAL_SIZE \<le> totalSize st \<longrightarrow>
        foldl (collectStep r) st rest
          = st\<lparr>skippedFiles := skippedFiles st @ map (\<lambda>f. skipEntry f ''Total Limit'') rest\<rparr>)
   \<and> (totalSize st < MAX_TOTAL_SIZE \<and> getFileDiff r f = Content c
        \<and> MAX_TOTAL_SIZE < totalSize st + length c \<longrightarrow>
        collectStep r st f = st\<lparr>skippedFiles := skippedFiles st @ [skipEntry f ''Total Limit'']\<rparr>)
   \<and> (totalSize st < MAX_TOTAL_SIZE \<and> getFileDiff r f = Content c
        \<and> totalSize st + length c \<le> MAX_TOTAL_SIZE \<longrightarrow>
        collectStep r st f
          = st\<lparr>fullDiff := fullDiff st @ diffEntry f c, totalSize := totalSize st + length c\<rparr>)
   \<and> (totalSize st < MAX_TOTAL_SIZE \<and> getFileDiff r f = Skip why \<longrightarrow>
        collectStep r st f = st\<lparr>skippedFiles := skippedFiles st @ [skipEntry f why]\<rparr>)"
proof -
  let ?init = "\<lparr>fullDiff = [], totalSize = 0, skippedFiles = []\<rparr>"
  have a: "totalSize (collectDiffs r files) \<le> MAX_TOTAL_SIZE"
    unfolding collectDiffs_def by (rule collect_total) simp
  have b: "totalSize (collectDiffs r files) = sum_list (map (\<lambda>(f, c). length c) (includedDiffs r 0 files))"
    and c: "fullDiff (collectDiffs r files) = concat (map (\<lambda>(f, c). diffEntry f c) (includedDiffs r 0 files))"
    unfolding collectDiffs_def using collect_acc [of r ?init files] by simp_all
  show ?thesis
    using a b c included_subseq [of r 0 files] collect_full [of st r rest]
    by (simp add: collectStep_def)
qed


text \<open>
  Claim C1 as written skips every remaining file once a diff would exceed the cap. With
  three diffs of 30000 code units, then one of 20000 and one of 5000, the fourth would
  exceed the cap and is skipped, and the fifth is still included: the total ends at 95000.
\<close>

theorem collect_cap_C1_counterexample:
  "skippedFiles (collectDiffs
      \<lparr>statSize = (\<lambda>f. Some 100),
       gitDiffStaged = (\<lambda>f. Inr (replicate
          (if f = js ''d.js'' then 20000 else if f = js ''e.js'' then 5000 else 30000) 120))\<rparr>
      [js ''a.js'', js ''b.js'', js ''c.js'', js ''d.js'', js ''e.js''])
     = [js ''d.js (Total Limit)'']
   \<and> map fst (includedDiffs
      \<lparr>statSize = (\<lambda>f. Some 100),
       gitDiffStaged = (\<lambda>f. Inr (replicate
          (if f = js ''d.js'' then 20000 else if f = js ''e.js'' then 5000 else 30000) 120))\<rparr>
      0 [js ''a.js'', js ''b.js'', js ''c.js'', js ''d.js'', js ''e.js''])
     = [js ''a.js'', js ''b.js'', js ''c.js'', js ''e.js'']
   \<and> totalSize (collectDiffs
      \<lparr>statSize = (\<lambda>f. Some 100),
       gitDiffStaged = (\<lambda>f. Inr (replicate
          (if f = js ''d.js'' then 20000 else if f = js ''e.js'' then 5000 else 30000) 120))\<rparr>
      [js ''a.js'', js ''b.js'', js ''c.js'', js ''d.js'', js ''e.js''])
     = 95000"
  by (simp add: collectDiffs_def collectStep_def getFileDiff_def js_simps IGNORE_PATTERNS_def
      BINARY_EXTENSIONS_def extname_def lastComponent_def toLowerCase_def MAX_FILE_SIZE_def
      MAX_TOTAL_SIZE_def skipEntry_def)


theorem collect_cap_C1_witness:
  "foldl (collectStep \<lparr>statSize = (\<lambda>f. Some 100),
       gitDiffStaged = (\<lambda>f. Inr (replicate
          (if f = js ''d.js'' then 20000 else if f = js ''e.js'' then 5000 else 30000) 120))\<rparr>)
      \<lparr>fullDiff = [], totalSize = 100000, skippedFiles = []\<rparr> [js ''x.js'', js ''logo.png'']
     = \<lparr>fullDiff = [], totalSize = 100000,
        skippedFiles = [skipEntry (js ''x.js'') ''Total Limit'',
                        skipEntry (js ''logo.png'') ''Total Limit'']\<rparr>
   \<and> collectStep \<lparr>statSize = (\<lambda>f. Some 100),
       gitDiffStaged = (\<lambda>f. Inr (replicate
          (if f = js ''d.js'' then 20000 else if f = js ''e.js'' then 5000 else 30000) 120))\<rparr>
      \<lparr>fullDiff = [], totalSize = 90000, skippedFiles = []\<rparr> (js ''d.js'')
     = \<lparr>fullDiff = [], totalSize = 90000,
        skippedFiles = [skipEntry (js ''d.js'') ''Total Limit'']\<rparr>
   \<and> collectStep \<lparr>statSize = (\<lambda>f. Some 100),
       gitDiffStaged = (\<lambda>f. Inr (replicate
          (if f = js ''d.js'' then 20000 else if f = js ''e.js'' then 5000 else 30000) 120))\<rparr>
      \<lparr>fullDiff = [], totalSize = 90000, skippedFiles = []\<rparr> (js ''e.js'')
     = \<lparr>fullDiff = diffEntry (js ''e.js'') (replicate 5000 120), totalSize = 95000,
        skippedFiles = []\<rparr>
   \<and> collectStep \<lparr>statSize = (\<lambda>f. Some 100),
       gitDiffStaged = (\<lambda>f. Inr (replicate
          (if f = js ''d.js'' then 20000 else if f = js ''e.js'' then 5000 else 30000) 120))\<rparr>
      \<lparr>fullDiff = [], totalSize = 90000, skippedFiles = []\<rparr> (js ''logo.png'')
     = \<lparr>fullDiff = [], totalSize = 90000,
        skippedFiles = [skipEntry (js ''logo.png'') ''binary'']\<rparr>
   \<and> totalSize (collectDiffs \<lparr>statSize = (\<lambda>f. Some 100),
       gitDiffStaged = (\<lambda>f. Inr (replicate
          (if f = js ''d.js'' then 20000 else if f = js ''e.js'' then 5000 else 30000) 120))\<rparr> [js ''a.js'', js ''e.js'']) = 35000"
proof -
  let ?r = "\<lparr>statSize = (\<lambda>f. Some 100),
       gitDiffStaged = (\<lambda>f. Inr (replicate
          (if f = js ''d.js'' then 20000 else if f = js ''e.js'' then 5000 else 30000) 120))\<rparr>"
  have g: "getFileDiff ?r (js ''d.js'') = Content (replicate 20000 120)"
    "getFileDiff ?r (js ''e.js'') = Content (replicate 5000 120)"
    "getFileDiff ?r (js ''a.js'') = Content (replicate 30000 120)"
    "getFileDiff ?r (js ''logo.png'') = Skip ''binary''"
    by (simp_all add: getFileDiff_def js_simps IGNORE_PATTERNS_def BINARY_EXTENSIONS_def
        extname_def lastComponent_def toLowerCase_def MAX_FILE_SIZE_def)
  have i: "includedDiffs ?r 0 [js ''a.js'', js ''e.js'']
      = [(js ''a.js'', replicate 30000 120), (js ''e.js'', replicate 5000 120)]"
    by (simp add: g MAX_TOTAL_SIZE_def)
  have m: "MAX_TOTAL_SIZE = 100000" by (simp add: MAX_TOTAL_SIZE_def)
  note t1 = collect_cap_C1 [of ?r "[js ''a.js'', js ''e.js'']"
        "\<lparr>fullDiff = [], totalSize = 100000, skippedFiles = []\<rparr>" "[js ''x.js'', js ''logo.png'']"
        "js ''d.js''" "replicate 20000 120" "''binary''"]
  note t2 = collect_cap_C1 [of ?r "[]"
        "\<lparr>fullDiff = [], totalSize = 90000, skippedFiles = []\<rparr>" "[]"
        "js ''d.js''" "replicate 20000 120" "''binary''"]
  note t3 = collect_cap_C1 [of ?r "[]"
        "\<lparr>fullDiff = [], totalSize = 90000, skippedFiles = []\<rparr>" "[]"
        "js ''e.js''" "replicate 5000 120" "''binary''"]
  note t4 = collect_cap_C1 [of ?r "[]"
        "\<lparr>fullDiff = [], totalSize = 90000, skippedFiles = []\<rparr>" "[]"
        "js ''logo.png''" "[]" "''binary''"]
  have a: "foldl (collectStep ?r)
      \<lparr>fullDiff = [], totalSize = 100000, skippedFiles = []\<rparr> [js ''x.js'', js ''logo.png'']
     = \<lparr>fullDiff = [], totalSize = 100000,
        skippedFiles = [skipEntry (js ''x.js'') ''Total Limit'',
                        skipEntry (js ''logo.png'') ''Total Limit'']\<rparr>"
    and e: "totalSize (collectDiffs ?r [js ''a.js'', js ''e.js'']) = 35000"
    using t1 by (simp_all add: m g)
  have b: "collectStep ?r \<lparr>fullDiff = [], totalSize = 90000, skippedFiles = []\<rparr> (js ''d.js'')
     = \<lparr>fullDiff = [], totalSize = 90000,
        skippedFiles = [skipEntry (js ''d.js'') ''Total Limit'']\<rparr>"
    using t2 by (simp add: m g)
  have c: "collectStep ?r \<lparr>fullDiff = [], totalSize = 90000, skippedFiles = []\<rparr> (js ''e.js'')
     = \<lparr>fullDiff = diffEntry (js ''e.js'') (replicate 5000 120), totalSize = 95000,
        skippedFiles = []\<rparr>"
    using t3 by (simp add: m g)
  have d: "collectStep ?r \<lparr>fullDiff = [], totalSize = 90000, skippedFiles = []\<rparr> (js ''logo.png'')
     = \<lparr>fullDiff = [], totalSize = 90000,
        skippedFiles = [skipEntry (js ''logo.png'') ''binary'']\<rparr>"
    using t4 by (simp add: m g)
  from a b c d e show ?thesis by blast
qed

text \<open>
  Claim C5, as the code has it. The collector's \<open>getFileDiff\<close> first reads the file's size
  on disk; when that fails the file is skipped with \<open>error reading\<close> before any filter is
  looked at. When it succeeds the filters apply in order, an earlier one winning: ignore
  substring (\<open>ignored\<close>), binary extension (\<open>binary\<close>), size on disk above the per-file cap
  (\<open>too large\<close>), then the staged diff is fetched (\<open>error reading\<close> when that fails) and
  skipped with \<open>diff too large\<close> when its text is above the cap, else it is the content.
  The \<open>getFileDiff\<close> of src/git.js tests the binary extension before the ignore
  substrings and answers with a placeholder text for either.
\<close>

theorem getFileDiff_order_C5:
  "(statSize r f = None \<longrightarrow> getFileDiff r f = Skip ''error reading'')
   \<and> (statSize r f = Some sz \<and> list_ex (\<lambda>pattern. includes_js f pattern) IGNORE_PATTERNS \<longrightarrow>
        getFileDiff r f = Skip ''ignored'')
   \<and> (statSize r f = Some sz \<and> \<not> list_ex (\<lambda>pattern. includes_js f pattern) IGNORE_PATTERNS
        \<and> toLowerCase (extname f) \<in> set BINARY_EXTENSIONS \<longrightarrow>
        getFileDiff r f = Skip ''binary'')
   \<and> (statSize r f = Some sz \<and> \<not> list_ex (\<lambda>pattern. includes_js f pattern) IGNORE_PATTERNS
        \<and> toLowerCase (extname f) \<notin> set BINARY_EXTENSIONS \<and> sz > MAX_FILE_SIZE \<longrightarrow>
        getFileDiff r f = Skip ''too large'')
   \<and> (statSize r f = Some sz \<and> \<not> list_ex (\<lambda>pattern. includes_js f pattern) IGNORE_PATTERNS
        \<and> toLowerCase (extname f) \<notin> set BINARY_EXTENSIONS \<and> sz \<le> MAX_FILE_SIZE
        \<and> gitDiffStaged r f = Inl e \<longrightarrow>
        getFileDiff r f = Skip ''error reading'')
   \<and> (statSize r f = Some sz \<and> \<not> list_ex (\<lambda>pattern. includes_js f pattern) IGNORE_PATTERNS
        \<and> toLowerCase (extname f) \<notin> set BINARY_EXTENSIONS \<and> sz \<le> MAX_FILE_SIZE
        \<and> gitDiffStaged r f = Inr d \<and> length d > MAX_FILE_SIZE \<longrightarrow>
        getFileDiff r f = Skip ''diff too large'')
   \<and> (statSize r f = Some sz \<and> \<not> list_ex (\<lambda>pattern. includes_js f pattern) IGNORE_PATTERNS
        \<and> toLowerCase (extname f) \<notin> set BINARY_EXTENSIONS \<and> sz \<le> MAX_FILE_SIZE
        \<and> gitDiffStaged r f = Inr d \<and> length d \<le> MAX_FILE_SIZE \<longrightarrow>
        getFileDiff r f = Content d)
   \<and> (toLowerCase (extname f) \<in> set CONFIG_BINARY_EXTENSIONS \<longrightarrow>
        gitGetFileDiff x f = js ''(Binary file: '' @ f @ js '')'')
   \<and> (toLowerCase (extname f) \<notin> set CONFIG_BINARY_EXTENSIONS
        \<and> list_ex (\<lambda>p. includes_js f p) CONFIG_IGNORE_PATTERNS \<longrightarrow>
        gitGetFileDiff x f = js ''(Ignored file: '' @ f @ js '')'')"
  by (simp add: getFileDiff_def gitGetFileDiff_def)

text \<open>
  Claim C5 as written gives every path with an ignore substring the reason \<open>ignored\<close>. A
  staged deletion of \<open>package-lock.json\<close> has no file on disk: the size read throws and the
  reason is \<open>error reading\<close>. And in src/git.js the path \<open>dist/logo.png\<close>, which has an
  ignore substring, is answered as a binary file, the later filter of the claim.
\<close>

theorem getFileDiff_order_C5_counterexample:
  "list_ex (\<lambda>pattern. includes_js (js ''package-lock.json'') pattern) IGNORE_PATTERNS
   \<and> getFileDiff \<lparr>statSize = (\<lambda>f. None), gitDiffStaged = (\<lambda>f. Inr [])\<rparr> (js ''package-lock.json'')
       = Skip ''error reading''
   \<and> getFileDiff \<lparr>statSize = (\<lambda>f. None), gitDiffStaged = (\<lambda>f. Inr [])\<rparr> (js ''package-lock.json'')
       \<noteq> Skip ''ignored''
   \<and> list_ex (\<lambda>p. includes_js (js ''dist/logo.png'') p) CONFIG_IGNORE_PATTERNS
   \<and> gitGetFileDiff (\<lambda>f. Inr []) (js ''dist/logo.png'') = js ''(Binary file: dist/logo.png)''"
  by (simp add: getFileDiff_def gitGetFileDiff_def js_simps IGNORE_PATTERNS_def
      CONFIG_IGNORE_PATTERNS_def CONFIG_BINARY_EXTENSIONS_def extname_def lastComponent_def
      toLowerCase_def)


theorem getFileDiff_order_C5_witness:
  "getFileDiff \<lparr>statSize = (\<lambda>f. None), gitDiffStaged = (\<lambda>f. Inr [])\<rparr> (js ''dist/app.js'')
     = Skip ''error reading''
   \<and> getFileDiff \<lparr>statSize = (\<lambda>f. Some (if f = js ''big.js'' then 30001 else if f = js ''logo.PNG'' then 50000 else 10)),
       gitDiffStaged = (\<lambda>f. if f = js ''gone.js'' then Inl (js ''fatal'')
          else Inr (replicate (if f = js ''huge.js'' then 30001 else 7) 120))\<rparr> (js ''dist/logo.png'') = Skip ''ignored''
   \<and> getFileDiff \<lparr>statSize = (\<lambda>f. Some (if f = js ''big.js'' then 30001 else if f = js ''logo.PNG'' then 50000 else 10)),
       gitDiffStaged = (\<lambda>f. if f = js ''gone.js'' then Inl (js ''fatal'')
          else Inr (replicate (if f = js ''huge.js'' then 30001 else 7) 120))\<rparr> (js ''logo.PNG'') = Skip ''binary''
   \<and> getFileDiff \<lparr>statSize = (\<lambda>f. Some (if f = js ''big.js'' then 30001 else if f = js ''logo.PNG'' then 50000 else 10)),
       gitDiffStaged = (\<lambda>f. if f = js ''gone.js'' then Inl (js ''fatal'')
          else Inr (replicate (if f = js ''huge.js'' then 30001 else 7) 120))\<rparr> (js ''big.js'') = Skip ''too large''
   \<and> getFileDiff \<lparr>statSize = (\<lambda>f. Some (if f = js ''big.js'' then 30001 else if f = js ''logo.PNG'' then 50000 else 10)),
       gitDiffStaged = (\<lambda>f. if f = js ''gone.js'' then Inl (js ''fatal'')
          else Inr (replicate (if f = js ''huge.js'' then 30001 else 7) 120))\<rparr> (js ''gone.js'') = Skip ''error reading''
   \<and> getFileDiff \<lparr>statSize = (\<lambda>f. Some (if f = js ''big.js'' then 30001 else if f = js ''logo.PNG'' then 50000 else 10)),
       gitDiffStaged = (\<lambda>f. if f = js ''gone.js'' then Inl (js ''fatal'')
          else Inr (replicate (if f = js ''huge.js'' then 30001 else 7) 120))\<rparr> (js ''huge.js'') = Skip ''diff too large''
   \<and> getFileDiff \<lparr>statSize = (\<lambda>f. Some (if f = js ''big.js'' then 30001 else if f = js ''logo.PNG'' then 50000 else 10)),
       gitDiffStaged = (\<lambda>f. if f = js ''gone.js'' then Inl (js ''fatal'')
          else Inr (replicate (if f = js ''huge.js'' then 30001 else 7) 120))\<rparr> (js ''src/a.js'') = Content (replicate 7 120)
   \<and> gitGetFileDiff (\<lambda>f. Inr []) (js ''dist/logo.png'') = js ''(Binary file: '' @ js ''dist/logo.png'' @ js '')''
   \<and> gitGetFileDiff (\<lambda>f. Inr []) (js ''dist/app.js'') = js ''(Ignored file: '' @ js ''dist/app.js'' @ js '')''"
proof -
  let ?r = "\<lparr>statSize = (\<lambda>f. Some (if f = js ''big.js'' then 30001 else if f = js ''logo.PNG'' then 50000 else 10)),
       gitDiffStaged = (\<lambda>f. if f = js ''gone.js'' then Inl (js ''fatal'')
          else Inr (replicate (if f = js ''huge.js'' then 30001 else 7) 120))\<rparr>"
  have p:
    "list_ex (\<lambda>pattern. includes_js (js ''dist/logo.png'') pattern) IGNORE_PATTERNS"
    "toLowerCase (extname (js ''dist/logo.png'')) \<in> set BINARY_EXTENSIONS"
    "\<not> list_ex (\<lambda>pattern. includes_js (js ''logo.PNG'') pattern) IGNORE_PATTERNS"
    "toLowerCase (extname (js ''logo.PNG'')) \<in> set BINARY_EXTENSIONS"
    "\<not> list_ex (\<lambda>pattern. includes_js (js ''big.js'') pattern) IGNORE_PATTERNS"
    "toLowerCase (extname (js ''big.js'')) \<notin> set BINARY_EXTENSIONS"
    "\<not> list_ex (\<lambda>pattern. includes_js (js ''gone.js'') pattern) IGNORE_PATTERNS"
    "toLowerCase (extname (js ''gone.js'')) \<notin> set BINARY_EXTENSIONS"
    "\<not> list_ex (\<lambda>pattern. includes_js (js ''huge.js'') pattern) IGNORE_PATTERNS"
    "toLowerCase (extname (js ''huge.js'')) \<notin> set BINARY_EXTENSIONS"
    "\<not> list_ex (\<lambda>pattern. includes_js (js ''src/a.js'') pattern) IGNORE_PATTERNS"
    "toLowerCase (extname (js ''src/a.js'')) \<notin> set BINARY_EXTENSIONS"
    "list_ex (\<lambda>pattern. includes_js (js ''dist/app.js'') pattern) IGNORE_PATTERNS"
    "toLowerCase (extname (js ''dist/app.js'')) \<notin> set BINARY_EXTENSIONS"
    "toLowerCase (extname (js ''dist/logo.png'')) \<in> set CONFIG_BINARY_EXTENSIONS"
    "toLowerCase (extname (js ''dist/app.js'')) \<notin> set CONFIG_BINARY_EXTENSIONS"
    "list_ex (\<lambda>p. includes_js (js ''dist/app.js'') p) CONFIG_IGNORE_PATTERNS"
    by (simp_all add: js_simps IGNORE_PATTERNS_def BINARY_EXTENSIONS_def CONFIG_IGNORE_PATTERNS_def
        CONFIG_BINARY_EXTENSIONS_def extname_def lastComponent_def toLowerCase_def)
  have q: "js ''big.js'' \<noteq> js ''logo.PNG''" "js ''logo.PNG'' \<noteq> js ''big.js''"
    "js ''gone.js'' \<noteq> js ''big.js''" "js ''gone.js'' \<noteq> js ''logo.PNG''"
    "js ''huge.js'' \<noteq> js ''big.js''" "js ''huge.js'' \<noteq> js ''logo.PNG''"
    "js ''huge.js'' \<noteq> js ''gone.js''" "js ''src/a.js'' \<noteq> js ''big.js''"
    "js ''src/a.js'' \<noteq> js ''logo.PNG''" "js ''src/a.js'' \<noteq> js ''gone.js''"
    "js ''src/a.js'' \<noteq> js ''huge.js''" "js ''dist/logo.png'' \<noteq> js ''big.js''"
    "js ''dist/logo.png'' \<noteq> js ''logo.PNG''"
    by (simp_all add: js_simps)
  have m: "MAX_FILE_SIZE = 30000" by (simp add: MAX_FILE_SIZE_def)
  have c0: "getFileDiff \<lparr>statSize = (\<lambda>f. None), gitDiffStaged = (\<lambda>f. Inr [])\<rparr> (js ''dist/app.js'')
     = Skip ''error reading''"
    using getFileDiff_order_C5 [of "\<lparr>statSize = (\<lambda>f. None), gitDiffStaged = (\<lambda>f. Inr [])\<rparr>"
      "js ''dist/app.js''" 0 "[]" "[]" "\<lambda>f. Inr []"] by simp
  have c1: "getFileDiff ?r (js ''dist/logo.png'') = Skip ''ignored''"
    using getFileDiff_order_C5 [of ?r "js ''dist/logo.png''" 10 "[]" "[]" "\<lambda>f. Inr []"]
    by (simp add: p q m)
  have c2: "getFileDiff ?r (js ''logo.PNG'') = Skip ''binary''"
    using getFileDiff_order_C5 [of ?r "js ''logo.PNG''" 50000 "[]" "[]" "\<lambda>f. Inr []"]
    by (simp add: p q m)
  have c3: "getFileDiff ?r (js ''big.js'') = Skip ''too large''"
    using getFileDiff_order_C5 [of ?r "js ''big.js''" 30001 "[]" "[]" "\<lambda>f. Inr []"]
    by (simp add: p q m)
  have c4: "getFileDiff ?r (js ''gone.js'') = Skip ''error reading''"
    using getFileDiff_order_C5 [of ?r "js ''gone.js''" 10 "js ''fatal''" "[]" "\<lambda>f. Inr []"]
    by (simp add: p q m)
  have c5: "getFileDiff ?r (js ''huge.js'') = Skip ''diff too large''"
    using getFileDiff_order_C5 [of ?r "js ''huge.js''" 10 "[]" "replicate 30001 120" "\<lambda>f. Inr []"]
    by (simp add: p q m)
  have c6: "getFileDiff ?r (js ''src/a.js'') = Content (replicate 7 120)"
    using getFileDiff_order_C5 [of ?r "js ''src/a.js''" 10 "[]" "replicate 7 120" "\<lambda>f. Inr []"]
    by (simp add: p q m)
  have c7: "gitGetFileDiff (\<lambda>f. Inr []) (js ''dist/logo.png'') = js ''(Binary file: '' @ js ''dist/logo.png'' @ js '')''"
    using getFileDiff_order_C5 [of ?r "js ''dist/logo.png''" 10 "[]" "[]" "\<lambda>f. Inr []"]
    by (simp add: p)
  have c8: "gitGetFileDiff (\<lambda>f. Inr []) (js ''dist/app.js'') = js ''(Ignored file: '' @ js ''dist/app.js'' @ js '')''"
    using getFileDiff_order_C5 [of ?r "js ''dist/app.js''" 10 "[]" "[]" "\<lambda>f. Inr []"]
    by (simp add: p)
  from c0 c1 c2 c3 c4 c5 c6 c7 c8 show ?thesis by blast
qed

section \<open>Proofs: the editor, the injector and the action loop\<close>

lemmas fs_simps = plainTree_def existsSync_def readFileSync_def writeFileSync_def unlinkSync_def



lemma editCommitMessage_catch:
  "writeFileSync tree0 tmp msg = Some written \<Longrightarrow> spawn written tmp = None \<Longrightarrow>
   editCommitMessage spawn tmp tree0 msg = Some (msg, written)"
  by (simp add: editCommitMessage_def)

text \<open>
  Claim C8 says the temporary file is deleted on every exit path of \<open>editCommitMessage\<close>,
  the failing editor included. The code deletes it where the editor returns and the file
  can be read back and removed (\<open>editCommitMessage_cleanup\<close>). Where \<open>spawnSync\<close> throws, or
  the editor leaves something at the path that \<open>readFileSync\<close> throws on, or \<open>unlinkSync\<close>
  itself throws, the \<open>catch\<close> block returns the initial message and the path is still
  there: the code evaluated at those inputs, in an ordinary working directory that has
  nothing at the path before the call.
\<close>

theorem editCommitMessage_temp_remains_C8:
  "editCommitMessage (\<lambda>t p. None) (js ''/repo/.COMMIT_EDITMSG_TEMP'') (plainTree Map.empty)
       (js ''fix: typo'')
     = Some (js ''fix: typo'',
             plainTree [js ''/repo/.COMMIT_EDITMSG_TEMP'' \<mapsto> RegularFile (js ''fix: typo'')])
   \<and> map_option (\<lambda>r. node (snd r) (js ''/repo/.COMMIT_EDITMSG_TEMP''))
        (editCommitMessage (\<lambda>t p. None) (js ''/repo/.COMMIT_EDITMSG_TEMP'') (plainTree Map.empty)
           (js ''fix: typo''))
     = Some (Some (RegularFile (js ''fix: typo'')))
   \<and> editCommitMessage (\<lambda>t p. Some (t\<lparr>node := (node t)(p \<mapsto> Unreadable)\<rparr>))
         (js ''/repo/.COMMIT_EDITMSG_TEMP'') (plainTree Map.empty) (js ''fix: typo'')
     = Some (js ''fix: typo'', plainTree [js ''/repo/.COMMIT_EDITMSG_TEMP'' \<mapsto> Unreadable])
   \<and> editCommitMessage (\<lambda>t p. Some (t\<lparr>removable := (\<lambda>q. False)\<rparr>))
         (js ''/repo/.COMMIT_EDITMSG_TEMP'') (plainTree Map.empty) (js ''fix: typo'')
     = Some (js ''fix: typo'',
             (plainTree [js ''/repo/.COMMIT_EDITMSG_TEMP'' \<mapsto> RegularFile (js ''fix: typo'')])
               \<lparr>removable := (\<lambda>q. False)\<rparr>)"
  by (simp add: editCommitMessage_def fs_simps)

text \<open>
  Claim C2 says a finding with a line number n is inserted before line n whenever the
  file has a line at that position. The code tests \<open>if (lines[l])\<close>, which an empty line
  fails: for the file of the three lines \<open>a\<close>, empty, \<open>b\<close> and the line number 2 nothing is
  inserted and the file is left as it was. The code evaluated at that input.
\<close>

theorem applySuggestion_blank_line_C2:
  "split_nl [97, 10, 10, 98] = [[97], [], [98]]
   \<and> parseInt (js ''2'') = Some 2
   \<and> lineAt (split_nl [97, 10, 10, 98]) (2 - 1) = Some []
   \<and> applySuggestion (plainTree [js ''a.js'' \<mapsto> RegularFile [97, 10, 10, 98]])
        \<lparr>message = js ''rename x'', filePath = js ''a.js'', lineNumber = Some (js ''2''),
         contextLine = None\<rparr>
      = Some ((plainTree [js ''a.js'' \<mapsto> RegularFile [97, 10, 10, 98]]), False)"
  by (simp add: applySuggestion_def injectTodo_def injectByContext_def injectByLine_def
      parseInt_def lineAt_def js_simps isSpace_def isDigit_def digitValue_def fs_simps)


lemma applySuggestion_frame:
  "applySuggestion t item = Some (t', False) \<Longrightarrow> t' = t"
  by (auto simp: applySuggestion_def split: option.splits fnode.splits prod.splits if_splits)

lemma applySuggestion_target:
  "applySuggestion t item = Some (t', True) \<Longrightarrow>
   (\<exists>txt. node t (filePath item) = Some (RegularFile txt))
   \<and> (\<forall>p. p \<noteq> filePath item \<longrightarrow> node t' p = node t p)
   \<and> writable t (filePath item) \<and> writable t' = writable t \<and> removable t' = removable t"
  by (auto simp: applySuggestion_def fs_simps
      split: option.splits fnode.splits prod.splits if_splits)

lemma applySelected_inv:
  assumes "applySelected sugg sel st = Inr st'" and "distinct sel"
    and "set sel \<inter> indicesToRemove st = {}" and "finite (indicesToRemove st)"
  shows "indicesToRemove st \<subseteq> indicesToRemove st'
    \<and> indicesToRemove st' \<subseteq> indicesToRemove st \<union> set sel
    \<and> set sel \<subseteq> {..<length sugg}
    \<and> appliedCount st' = appliedCount st + card (indicesToRemove st' - indicesToRemove st)
    \<and> (\<forall>p. node (tree st') p \<noteq> node (tree st) p \<longrightarrow>
          (\<exists>i\<in>indicesToRemove st' - indicesToRemove st. filePath (sugg ! i) = p))"
  using assms
proof (induction sel arbitrary: st)
  case Nil
  then show ?case by simp
next
  case (Cons idx rest)
  from Cons.prems(1) have idx: "idx < length sugg"
    by (simp split: if_splits)
  from Cons.prems(1) idx obtain t1 injected where
    ap: "applySuggestion (tree st) (sugg ! idx) = Some (t1, injected)"
    by (auto split: option.splits)
  let ?st1 = "if injected
     then st\<lparr>tree := t1, appliedCount := appliedCount st + 1,
             indicesToRemove := insert idx (indicesToRemove st)\<rparr>
     else st"
  from Cons.prems(1) idx ap have rec: "applySelected sugg rest ?st1 = Inr st'" by simp
  have d: "distinct rest" and notin: "idx \<notin> set rest" using Cons.prems(2) by simp_all
  have fresh: "idx \<notin> indicesToRemove st" using Cons.prems(3) by auto
  have disj: "set rest \<inter> indicesToRemove ?st1 = {}"
    using Cons.prems(3) notin by auto
  have fin: "finite (indicesToRemove ?st1)" using Cons.prems(4) by simp
  note IH = Cons.IH [OF rec d disj fin]
  show ?case
  proof (cases injected)
    case False
    from ap False have "t1 = tree st" using applySuggestion_frame [of "tree st" "sugg ! idx" t1] by simp
    with IH False idx show ?thesis by auto
  next
    case True
    let ?rm = "indicesToRemove st" and ?rm' = "indicesToRemove st'"
    from IH True have sub1: "insert idx ?rm \<subseteq> ?rm'"
      and sub2: "?rm' \<subseteq> insert idx ?rm \<union> set rest"
      and bound: "set rest \<subseteq> {..<length sugg}"
      and cnt: "appliedCount st' = appliedCount st + 1 + card (?rm' - insert idx ?rm)"
      and fr: "\<forall>p. node (tree st') p \<noteq> node t1 p \<longrightarrow> (\<exists>i\<in>?rm' - insert idx ?rm. filePath (sugg ! i) = p)"
      by simp_all
    have finD: "finite (?rm' - insert idx ?rm)"
      using sub2 by (meson Diff_subset_conv finite_set finite_subset sup_commute)
    have split: "?rm' - ?rm = insert idx (?rm' - insert idx ?rm)"
      using sub1 fresh by auto
    have "card (?rm' - ?rm) = Suc (card (?rm' - insert idx ?rm))"
      unfolding split using finD by simp
    with cnt have c: "appliedCount st' = appliedCount st + card (?rm' - ?rm)" by simp
    have f: "\<forall>p. node (tree st') p \<noteq> node (tree st) p \<longrightarrow> (\<exists>i\<in>?rm' - ?rm. filePath (sugg ! i) = p)"
    proof (intro allI impI)
      fix p assume ne: "node (tree st') p \<noteq> node (tree st) p"
      show "\<exists>i\<in>?rm' - ?rm. filePath (sugg ! i) = p"
      proof (cases "node (tree st') p = node t1 p")
        case False
        with fr obtain i where "i \<in> ?rm' - insert idx ?rm" "filePath (sugg ! i) = p" by blast
        then show ?thesis by auto
      next
        case same: True
        with ne have "node t1 p \<noteq> node (tree st) p" by simp
        with ap True have "p = filePath (sugg ! idx)"
          using applySuggestion_target [of "tree st" "sugg ! idx" t1] by auto
        moreover have "idx \<in> ?rm' - ?rm" using sub1 fresh by auto
        ultimately show ?thesis by blast
      qed
    qed
    from sub1 sub2 bound idx c f show ?thesis by auto
  qed
qed

lemma removeApplied_nths: "removeApplied sugg rm = nths sugg (- rm)"
proof -
  have "map snd (filter (\<lambda>(i, s). i \<notin> rm) (zip [0..<length sugg] sugg))
        = map fst (filter (\<lambda>p. snd p \<in> - rm) (zip sugg [0..<length sugg]))"
    by (subst zip_commute [of sugg]) (simp add: filter_map comp_def case_prod_beta split_def)
  then show ?thesis by (simp add: removeApplied_def nths_def enumerate_eq_zip)
qed

lemma removeApplied_length:
  assumes "rm \<subseteq> {..<length sugg}"
  shows "length (removeApplied sugg rm) + card rm = length sugg"
proof -
  have "{i. i < length sugg \<and> i \<in> - rm} = {..<length sugg} - rm" by auto
  then have "length (removeApplied sugg rm) = card ({..<length sugg} - rm)"
    by (simp add: removeApplied_nths length_nths)
  also have "\<dots> = length sugg - card rm"
    using assms by (simp add: card_Diff_subset finite_subset)
  finally show ?thesis
    using assms card_mono [of "{..<length sugg}" rm] by simp
qed


lemma nths_partition: "mset (nths xs A) + mset (nths xs (- A)) = mset xs"
proof -
  let ?z = "zip xs [0..<length xs]"
  have "mset ?z = filter_mset (\<lambda>p. snd p \<in> A) (mset ?z) + filter_mset (\<lambda>p. \<not> snd p \<in> A) (mset ?z)"
    by (rule multiset_partition)
  then have "image_mset fst (mset ?z)
      = image_mset fst (filter_mset (\<lambda>p. snd p \<in> A) (mset ?z))
        + image_mset fst (filter_mset (\<lambda>p. \<not> snd p \<in> A) (mset ?z))"
    by (metis image_mset_union)
  moreover have "image_mset fst (mset ?z) = mset xs"
    by (metis length_upt map_fst_zip minus_nat.diff_0 mset_map)
  ultimately show ?thesis by (simp add: nths_def)
qed

lemma nths_submset: "mset (nths xs A) \<subseteq># mset xs"
  using nths_partition [of xs A] by (metis mset_subset_eq_add_left)

lemma appliedBy_sub: "mset (appliedBy s t) \<subseteq># mset (suggestions s)"
  by (auto simp: appliedBy_def nths_submset split: turn.splits action.splits prompt.splits sum.splits)

lemma acting_conserves:
  "acting tmp s t = BackToMenu s' \<Longrightarrow>
   mset (appliedBy s t) + mset (suggestions s') = mset (suggestions s)"
proof (cases t)
  case SelectCancelled
  assume "acting tmp s t = BackToMenu s'"
  with SelectCancelled show ?thesis by (simp add: acting_def)
next
  case (Chose act a)
  assume bk: "acting tmp s t = BackToMenu s'"
  show ?thesis
  proof (cases act)
    case Commit
    with Chose bk show ?thesis by (simp add: acting_def split: if_splits)
  next
    case Edit
    with Chose bk show ?thesis
      by (auto simp: acting_def appliedBy_def split: prod.splits option.splits)
  next
    case Cancel
    with Chose bk show ?thesis by (simp add: acting_def)
  next
    case Issues
    with Chose bk have ia: "issuesAction s a = BackToMenu s'" by (simp add: acting_def)
    show ?thesis
    proof (cases "selectedIdx a")
      case CancelSymbol
      with ia show ?thesis by (simp add: issuesAction_def)
    next
      case (Answered sel)
      show ?thesis
      proof (cases "sel = []")
        case True
        with ia Answered Chose Issues show ?thesis
          by (simp add: issuesAction_def appliedBy_def)
      next
        case False
        let ?r = "applySelected (suggestions s) sel
                    \<lparr>tree = worktree s, appliedCount = 0, indicesToRemove = {}\<rparr>"
        from ia Answered False obtain st where r: "?r = Inr st"
          by (cases ?r) (simp_all add: issuesAction_def)
        from ia Answered False r
        have "suggestions s' = removeApplied (suggestions s) (indicesToRemove st)"
          by (auto simp: issuesAction_def Let_def split: prompt.splits bool.splits if_splits)
        moreover have "appliedBy s t = nths (suggestions s) (indicesToRemove st)"
          using Chose Issues Answered False r by (simp add: appliedBy_def)
        ultimately show ?thesis
          by (simp add: removeApplied_nths nths_partition)
      qed
    qed
  qed
qed

lemma appliedInRun_sub: "mset (appliedInRun tmp s ts) \<subseteq># mset (suggestions s)"
proof (induction ts arbitrary: s)
  case Nil
  show ?case by simp
next
  case (Cons t ts)
  show ?case
  proof (cases "acting tmp s t")
    case (BackToMenu s')
    from acting_conserves [OF this]
    have "mset (suggestions s) = mset (appliedBy s t) + mset (suggestions s')" by simp
    moreover have "mset (appliedInRun tmp s' ts) \<subseteq># mset (suggestions s')" by (rule Cons.IH)
    ultimately show ?thesis using BackToMenu by simp
  next
    case (Finished c s')
    then show ?thesis using appliedBy_sub [of s t] by simp
  next
    case (Threw s')
    then show ?thesis using appliedBy_sub [of s t] by simp
  qed
qed


lemma example_apply:
  "applySuggestion (plainTree [js ''a.js'' \<mapsto> RegularFile (js ''let x = 1;'')])
     \<lparr>message = js ''rename x'', filePath = js ''a.js'', lineNumber = Some (js ''1''), contextLine = Some (js ''let x'')\<rparr> = Some ((plainTree [js ''a.js'' \<mapsto> RegularFile (js ''// TODO: [AI] rename x'' @ 10 # js ''let x = 1;'')]), True)"
  "applySuggestion (plainTree [js ''a.js'' \<mapsto> RegularFile (js ''// TODO: [AI] rename x'' @ 10 # js ''let x = 1;'')])
     \<lparr>message = js ''split up'', filePath = js ''a.js'', lineNumber = None, contextLine = None\<rparr> = Some ((plainTree [js ''a.js'' \<mapsto> RegularFile (js ''// TODO: [AI] rename x'' @ 10 # js ''let x = 1;'')]), False)"
  by (simp_all add: applySuggestion_def injectTodo_def injectByContext_def injectByLine_def
      getCommentSyntax_def extname_def lastComponent_def toLowerCase_def trim_def js_simps isSpace_def
      splice_def fs_simps)

lemma example_selected:
  "applySelected [\<lparr>message = js ''rename x'', filePath = js ''a.js'', lineNumber = Some (js ''1''), contextLine = Some (js ''let x'')\<rparr>,
       \<lparr>message = js ''split up'', filePath = js ''a.js'', lineNumber = None, contextLine = None\<rparr>] [0, 1]
     \<lparr>tree = plainTree [js ''a.js'' \<mapsto> RegularFile (js ''let x = 1;'')], appliedCount = 0, indicesToRemove = {}\<rparr>
   = Inr \<lparr>tree = plainTree [js ''a.js'' \<mapsto> RegularFile (js ''// TODO: [AI] rename x'' @ 10 # js ''let x = 1;'')], appliedCount = 1, indicesToRemove = {0}\<rparr>"
  by (simp add: example_apply)

lemma example_selected_Suc:
  "applySelected [\<lparr>message = js ''rename x'', filePath = js ''a.js'', lineNumber = Some (js ''1''), contextLine = Some (js ''let x'')\<rparr>,
       \<lparr>message = js ''split up'', filePath = js ''a.js'', lineNumber = None, contextLine = None\<rparr>] [0, Suc 0]
     \<lparr>tree = plainTree [js ''a.js'' \<mapsto> RegularFile (js ''let x = 1;'')], appliedCount = 0, indicesToRemove = {}\<rparr>
   = Inr \<lparr>tree = plainTree [js ''a.js'' \<mapsto> RegularFile (js ''// TODO: [AI] rename x'' @ 10 # js ''let x = 1;'')], appliedCount = 1, indicesToRemove = {0}\<rparr>"
  using example_selected by simp

lemma example_removed:
  "removeApplied [\<lparr>message = js ''rename x'', filePath = js ''a.js'', lineNumber = Some (js ''1''), contextLine = Some (js ''let x'')\<rparr>,
       \<lparr>message = js ''split up'', filePath = js ''a.js'', lineNumber = None, contextLine = None\<rparr>] {0}
   = [\<lparr>message = js ''split up'', filePath = js ''a.js'', lineNumber = None, contextLine = None\<rparr>]"
  by (simp add: removeApplied_def enumerate_eq_zip upt_rec)

lemma example_confirmed:
  "acting tmp \<lparr>currentMessage = js ''feat: x'', suggestions = [\<lparr>message = js ''rename x'', filePath = js ''a.js'', lineNumber = Some (js ''1''), contextLine = Some (js ''let x'')\<rparr>, \<lparr>message = js ''split up'', filePath = js ''a.js'', lineNumber = None, contextLine = None\<rparr>], worktree = plainTree [js ''a.js'' \<mapsto> RegularFile (js ''let x = 1;'')], stagedTree = plainTree [js ''a.js'' \<mapsto> RegularFile (js ''let x = 1;'')]\<rparr>
     (Chose Issues \<lparr>commitOk = True, spawnEditor = (\<lambda>t p. Some t), selectedIdx = Answered [0, 1], commitNow = Answered True, addOk = True\<rparr>)
   = BackToMenu \<lparr>currentMessage = js ''feat: x'', suggestions = [\<lparr>message = js ''split up'', filePath = js ''a.js'', lineNumber = None, contextLine = None\<rparr>], worktree = plainTree [js ''a.js'' \<mapsto> RegularFile (js ''// TODO: [AI] rename x'' @ 10 # js ''let x = 1;'')], stagedTree = plainTree [js ''a.js'' \<mapsto> RegularFile (js ''// TODO: [AI] rename x'' @ 10 # js ''let x = 1;'')]\<rparr>"
  by (simp add: acting_def issuesAction_def example_selected_Suc example_removed
      del: applySelected.simps)

lemma example_appliedBy:
  "appliedBy \<lparr>currentMessage = js ''feat: x'', suggestions = [\<lparr>message = js ''rename x'', filePath = js ''a.js'', lineNumber = Some (js ''1''), contextLine = Some (js ''let x'')\<rparr>, \<lparr>message = js ''split up'', filePath = js ''a.js'', lineNumber = None, contextLine = None\<rparr>], worktree = plainTree [js ''a.js'' \<mapsto> RegularFile (js ''let x = 1;'')], stagedTree = plainTree [js ''a.js'' \<mapsto> RegularFile (js ''let x = 1;'')]\<rparr>
     (Chose Issues \<lparr>commitOk = True, spawnEditor = (\<lambda>t p. Some t), selectedIdx = Answered [0, 1], commitNow = Answered True, addOk = True\<rparr>)
   = [\<lparr>message = js ''rename x'', filePath = js ''a.js'', lineNumber = Some (js ''1''), contextLine = Some (js ''let x'')\<rparr>]"
  by (simp add: appliedBy_def example_selected_Suc nths_def upt_rec del: applySelected.simps)

text \<open>
  Claim C7. The injector rewrites a file only when the injection succeeded: a failed
  match returns the working tree unchanged, and a successful one changes nothing but the
  text of the finding's own file. In one pass over a selection without repeated indices, every file
  that changed is the file of a finding the pass applied, the number of applications is
  the number of marked indices, and the pending suggestions afterwards are exactly the
  ones at unmarked indices, in order: applied and pending findings together are the
  suggestions of before. Over a whole run, the findings applied are a sub-multiset of the
  suggestions the run started with: none is applied more than once.
\<close>

theorem injector_frame_prune_C7:
  "(applySuggestion t item = Some (t', False) \<longrightarrow> t' = t)
   \<and> (applySuggestion t item = Some (t', True) \<longrightarrow>
        (\<exists>txt. node t (filePath item) = Some (RegularFile txt))
        \<and> (\<forall>p. p \<noteq> filePath item \<longrightarrow> node t' p = node t p)
        \<and> writable t' = writable t \<and> removable t' = removable t)
   \<and> (distinct sel
        \<and> applySelected sugg sel \<lparr>tree = t, appliedCount = 0, indicesToRemove = {}\<rparr> = Inr st \<longrightarrow>
          indicesToRemove st \<subseteq> set sel
        \<and> appliedCount st = card (indicesToRemove st)
        \<and> (\<forall>p. node (tree st) p \<noteq> node t p \<longrightarrow> (\<exists>i\<in>indicesToRemove st. filePath (sugg ! i) = p))
        \<and> removeApplied sugg (indicesToRemove st) = nths sugg (- indicesToRemove st)
        \<and> length (removeApplied sugg (indicesToRemove st)) + appliedCount st = length sugg
        \<and> mset (nths sugg (indicesToRemove st)) + mset (removeApplied sugg (indicesToRemove st))
            = mset sugg)
   \<and> (acting tmp s trn = BackToMenu s' \<longrightarrow>
        mset (appliedBy s trn) + mset (suggestions s') = mset (suggestions s))
   \<and> mset (appliedInRun tmp s ts) \<subseteq># mset (suggestions s)"
proof -
  have pass: "indicesToRemove st \<subseteq> set sel
        \<and> appliedCount st = card (indicesToRemove st)
        \<and> (\<forall>p. node (tree st) p \<noteq> node t p \<longrightarrow> (\<exists>i\<in>indicesToRemove st. filePath (sugg ! i) = p))
        \<and> removeApplied sugg (indicesToRemove st) = nths sugg (- indicesToRemove st)
        \<and> length (removeApplied sugg (indicesToRemove st)) + appliedCount st = length sugg
        \<and> mset (nths sugg (indicesToRemove st)) + mset (removeApplied sugg (indicesToRemove st))
            = mset sugg"
    if d: "distinct sel"
      and r: "applySelected sugg sel \<lparr>tree = t, appliedCount = 0, indicesToRemove = {}\<rparr> = Inr st"
  proof -
    from applySelected_inv [OF r d] have
      sub: "indicesToRemove st \<subseteq> set sel" and bound: "set sel \<subseteq> {..<length sugg}"
      and cnt: "appliedCount st = card (indicesToRemove st)"
      and fr: "\<forall>p. node (tree st) p \<noteq> node t p \<longrightarrow> (\<exists>i\<in>indicesToRemove st. filePath (sugg ! i) = p)"
      by simp_all
    from sub bound have "indicesToRemove st \<subseteq> {..<length sugg}" by blast
    from removeApplied_length [OF this] cnt
    have len: "length (removeApplied sugg (indicesToRemove st)) + appliedCount st = length sugg"
      by simp
    from sub cnt fr len show ?thesis
      by (simp add: removeApplied_nths nths_partition)
  qed
  show ?thesis
    using applySuggestion_frame [of t item t'] applySuggestion_target [of t item t'] pass
      acting_conserves [of tmp s trn s'] appliedInRun_sub [of tmp s ts]
    by blast
qed

theorem injector_frame_prune_C7_witness:
  "applySuggestion (plainTree [js ''a.js'' \<mapsto> RegularFile (js ''// TODO: [AI] rename x'' @ 10 # js ''let x = 1;'')])
     \<lparr>message = js ''split up'', filePath = js ''a.js'', lineNumber = None, contextLine = None\<rparr> = Some ((plainTree [js ''a.js'' \<mapsto> RegularFile (js ''// TODO: [AI] rename x'' @ 10 # js ''let x = 1;'')]), False)
   \<and> applySuggestion (plainTree [js ''a.js'' \<mapsto> RegularFile (js ''let x = 1;'')])
     \<lparr>message = js ''rename x'', filePath = js ''a.js'', lineNumber = Some (js ''1''), contextLine = Some (js ''let x'')\<rparr> = Some ((plainTree [js ''a.js'' \<mapsto> RegularFile (js ''// TODO: [AI] rename x'' @ 10 # js ''let x = 1;'')]), True)
   \<and> distinct [0::nat, 1]
   \<and> applySelected [\<lparr>message = js ''rename x'', filePath = js ''a.js'', lineNumber = Some (js ''1''), contextLine = Some (js ''let x'')\<rparr>,
       \<lparr>message = js ''split up'', filePath = js ''a.js'', lineNumber = None, contextLine = None\<rparr>] [0, 1]
       \<lparr>tree = plainTree [js ''a.js'' \<mapsto> RegularFile (js ''let x = 1;'')], appliedCount = 0, indicesToRemove = {}\<rparr>
     = Inr \<lparr>tree = plainTree [js ''a.js'' \<mapsto> RegularFile (js ''// TODO: [AI] rename x'' @ 10 # js ''let x = 1;'')], appliedCount = 1, indicesToRemove = {0}\<rparr>
   \<and> removeApplied [\<lparr>message = js ''rename x'', filePath = js ''a.js'', lineNumber = Some (js ''1''), contextLine = Some (js ''let x'')\<rparr>,
       \<lparr>message = js ''split up'', filePath = js ''a.js'', lineNumber = None, contextLine = None\<rparr>] {0}
     = nths [\<lparr>message = js ''rename x'', filePath = js ''a.js'', lineNumber = Some (js ''1''), contextLine = Some (js ''let x'')\<rparr>,
       \<lparr>message = js ''split up'', filePath = js ''a.js'', lineNumber = None, contextLine = None\<rparr>] (- {0})
   \<and> removeApplied [\<lparr>message = js ''rename x'', filePath = js ''a.js'', lineNumber = Some (js ''1''), contextLine = Some (js ''let x'')\<rparr>,
       \<lparr>message = js ''split up'', filePath = js ''a.js'', lineNumber = None, contextLine = None\<rparr>] {0}
     = [\<lparr>message = js ''split up'', filePath = js ''a.js'', lineNumber = None, contextLine = None\<rparr>]
   \<and> mset [\<lparr>message = js ''rename x'', filePath = js ''a.js'', lineNumber = Some (js ''1''), contextLine = Some (js ''let x'')\<rparr>]
       + mset [\<lparr>message = js ''split up'', filePath = js ''a.js'', lineNumber = None, contextLine = None\<rparr>]
     = mset [\<lparr>message = js ''rename x'', filePath = js ''a.js'', lineNumber = Some (js ''1''), contextLine = Some (js ''let x'')\<rparr>,
       \<lparr>message = js ''split up'', filePath = js ''a.js'', lineNumber = None, contextLine = None\<rparr>]
   \<and> mset (appliedInRun (js ''/repo/.COMMIT_EDITMSG_TEMP'')
        \<lparr>currentMessage = js ''feat: x'', suggestions = [\<lparr>message = js ''rename x'', filePath = js ''a.js'', lineNumber = Some (js ''1''), contextLine = Some (js ''let x'')\<rparr>, \<lparr>message = js ''split up'', filePath = js ''a.js'', lineNumber = None, contextLine = None\<rparr>], worktree = plainTree [js ''a.js'' \<mapsto> RegularFile (js ''let x = 1;'')], stagedTree = plainTree [js ''a.js'' \<mapsto> RegularFile (js ''let x = 1;'')]\<rparr>
        [Chose Issues \<lparr>commitOk = True, spawnEditor = (\<lambda>t p. Some t), selectedIdx = Answered [0, 1], commitNow = Answered True, addOk = True\<rparr>])
      \<subseteq># mset [\<lparr>message = js ''rename x'', filePath = js ''a.js'', lineNumber = Some (js ''1''), contextLine = Some (js ''let x'')\<rparr>,
       \<lparr>message = js ''split up'', filePath = js ''a.js'', lineNumber = None, contextLine = None\<rparr>]"
  using
    injector_frame_prune_C7 [of "plainTree [js ''a.js'' \<mapsto> RegularFile (js ''// TODO: [AI] rename x'' @ 10 # js ''let x = 1;'')]"
      "\<lparr>message = js ''split up'', filePath = js ''a.js'', lineNumber = None, contextLine = None\<rparr>" "plainTree [js ''a.js'' \<mapsto> RegularFile (js ''// TODO: [AI] rename x'' @ 10 # js ''let x = 1;'')]" "[]" "[]"
      "\<lparr>tree = plainTree [js ''a.js'' \<mapsto> RegularFile (js ''// TODO: [AI] rename x'' @ 10 # js ''let x = 1;'')], appliedCount = 0, indicesToRemove = {}\<rparr>"
      "js ''/repo/.COMMIT_EDITMSG_TEMP''" "\<lparr>currentMessage = js ''feat: x'', suggestions = [\<lparr>message = js ''rename x'', filePath = js ''a.js'', lineNumber = Some (js ''1''), contextLine = Some (js ''let x'')\<rparr>, \<lparr>message = js ''split up'', filePath = js ''a.js'', lineNumber = None, contextLine = None\<rparr>], worktree = plainTree [js ''a.js'' \<mapsto> RegularFile (js ''let x = 1;'')], stagedTree = plainTree [js ''a.js'' \<mapsto> RegularFile (js ''let x = 1;'')]\<rparr>"
      "Chose Issues \<lparr>commitOk = True, spawnEditor = (\<lambda>t p. Some t), selectedIdx = Answered [0, 1], commitNow = Answered True, addOk = True\<rparr>"
      "\<lparr>currentMessage = js ''feat: x'', suggestions = [\<lparr>message = js ''split up'', filePath = js ''a.js'', lineNumber = None, contextLine = None\<rparr>], worktree = plainTree [js ''a.js'' \<mapsto> RegularFile (js ''// TODO: [AI] rename x'' @ 10 # js ''let x = 1;'')], stagedTree = plainTree [js ''a.js'' \<mapsto> RegularFile (js ''// TODO: [AI] rename x'' @ 10 # js ''let x = 1;'')]\<rparr>"
      "[Chose Issues \<lparr>commitOk = True, spawnEditor = (\<lambda>t p. Some t), selectedIdx = Answered [0, 1], commitNow = Answered True, addOk = True\<rparr>]"]
    injector_frame_prune_C7 [of "plainTree [js ''a.js'' \<mapsto> RegularFile (js ''let x = 1;'')]"
      "\<lparr>message = js ''rename x'', filePath = js ''a.js'', lineNumber = Some (js ''1''), contextLine = Some (js ''let x'')\<rparr>" "plainTree [js ''a.js'' \<mapsto> RegularFile (js ''// TODO: [AI] rename x'' @ 10 # js ''let x = 1;'')]" "[0, 1]"
      "[\<lparr>message = js ''rename x'', filePath = js ''a.js'', lineNumber = Some (js ''1''), contextLine = Some (js ''let x'')\<rparr>,
       \<lparr>message = js ''split up'', filePath = js ''a.js'', lineNumber = None, contextLine = None\<rparr>]"
      "\<lparr>tree = plainTree [js ''a.js'' \<mapsto> RegularFile (js ''// TODO: [AI] rename x'' @ 10 # js ''let x = 1;'')], appliedCount = 1, indicesToRemove = {0}\<rparr>"
      "[]" "\<lparr>currentMessage = js ''feat: x'', suggestions = [\<lparr>message = js ''rename x'', filePath = js ''a.js'', lineNumber = Some (js ''1''), contextLine = Some (js ''let x'')\<rparr>, \<lparr>message = js ''split up'', filePath = js ''a.js'', lineNumber = None, contextLine = None\<rparr>], worktree = plainTree [js ''a.js'' \<mapsto> RegularFile (js ''let x = 1;'')], stagedTree = plainTree [js ''a.js'' \<mapsto> RegularFile (js ''let x = 1;'')]\<rparr>" SelectCancelled "\<lparr>currentMessage = js ''feat: x'', suggestions = [\<lparr>message = js ''rename x'', filePath = js ''a.js'', lineNumber = Some (js ''1''), contextLine = Some (js ''let x'')\<rparr>, \<lparr>message = js ''split up'', filePath = js ''a.js'', lineNumber = None, contextLine = None\<rparr>], worktree = plainTree [js ''a.js'' \<mapsto> RegularFile (js ''let x = 1;'')], stagedTree = plainTree [js ''a.js'' \<mapsto> RegularFile (js ''let x = 1;'')]\<rparr>" "[]"]
    example_apply example_selected example_removed example_confirmed example_appliedBy
  by (simp del: applySelected.simps appliedInRun.simps)








section \<open>Proofs: the frame of boxMessage\<close>

lemma renderedWidth_append: "renderedWidth (a @ b) = renderedWidth a + renderedWidth b"
  by (simp add: renderedWidth_def)

lemma renderedWidth_Cons:
  "renderedWidth [] = 0"
  "renderedWidth (c # s) = (if isBoxDrawing c then 1 else if c > 255 then 2 else 1) + renderedWidth s"
  by (simp_all add: renderedWidth_def)

lemma renderedWidth_plain:
  "\<forall>c\<in>set s. \<not> isBoxDrawing c \<Longrightarrow> renderedWidth s = getVisualWidth s"
  by (induction s) (simp_all add: renderedWidth_def getVisualWidth_Nil getVisualWidth_Cons)

lemma renderedWidth_repeat:
  "isBoxDrawing c \<or> c = 32 \<Longrightarrow> renderedWidth (repeat [c] n) = length (repeat [c] n)"
  by (induction n) (auto simp: repeat_def renderedWidth_def)

lemma wrapChars_units:
  assumes "\<forall>ch\<in>set chs. set ch \<subseteq> S" and "\<forall>l\<in>set lines. set l \<subseteq> S" and "set cur \<subseteq> S"
  shows "\<forall>l\<in>set (wrapChars L chs lines cur w). set l \<subseteq> S"
  using assms
proof (induction chs arbitrary: lines cur w)
  case Nil
  then show ?case by simp
next
  case (Cons ch chs)
  have a: "\<forall>l\<in>set (wrapChars L chs (lines @ [cur]) ch (getVisualWidth ch)). set l \<subseteq> S"
    using Cons.prems by (intro Cons.IH) auto
  have b: "\<forall>l\<in>set (wrapChars L chs lines (cur @ ch) (w + getVisualWidth ch)). set l \<subseteq> S"
    using Cons.prems by (intro Cons.IH) auto
  show ?case using a b by (simp add: Let_def)
qed

lemma wrapParagraphs_units:
  assumes "\<forall>para\<in>set paras. set para \<subseteq> S" and "\<forall>l\<in>set lines. set l \<subseteq> S"
  shows "\<forall>l\<in>set (wrapParagraphs L paras lines). set l \<subseteq> S"
  using assms
proof (induction paras arbitrary: lines)
  case Nil
  then show ?case by simp
next
  case (Cons para paras)
  have para: "set para \<subseteq> S" using Cons.prems(1) by simp
  have "\<forall>ch\<in>set (codePoints para). set ch \<subseteq> S"
    using codePoints_set [of _ para] para by blast
  then have "\<forall>l\<in>set (wrapChars L (codePoints para) lines [] 0). set l \<subseteq> S"
    using Cons.prems(2) by (intro wrapChars_units) simp_all
  moreover have "\<forall>para\<in>set paras. set para \<subseteq> S" using Cons.prems(1) by simp
  ultimately have "\<forall>l\<in>set (wrapParagraphs L paras (wrapChars L (codePoints para) lines [] 0)). set l \<subseteq> S"
    by (intro Cons.IH)
  then show ?case by simp
qed

lemma boxLines_units: "l \<in> set (boxLines t p) \<Longrightarrow> set l \<subseteq> set t"
proof (cases "t = []")
  case True
  assume "l \<in> set (boxLines t p)"
  with True show ?thesis by (simp add: boxLines_def wrapText_def)
next
  case False
  assume l: "l \<in> set (boxLines t p)"
  have "\<forall>para\<in>set (split_nl t). set para \<subseteq> set t"
    using split_nl_set [of _ t] by blast
  then have "\<forall>l\<in>set (wrapParagraphs (wrapLimit (Some (min 80 (terminalColumns p - 4))) p) (split_nl t) []).
      set l \<subseteq> set t"
    by (intro wrapParagraphs_units) simp_all
  with l False show ?thesis by (simp add: boxLines_def wrapText_lines)
qed

lemma rendered_top:
  assumes "\<forall>c\<in>set title. \<not> isBoxDrawing c"
  shows "renderedWidth (topWithTitle title t p) = boxWidth title t p + 2"
proof -
  have "renderedWidth (repeat [9472] (nat (max 0 (rightDashes title t p))))
      = nat (max 0 (rightDashes title t p))"
    using renderedWidth_repeat [of 9472 "nat (max 0 (rightDashes title t p))"]
    by (simp add: isBoxDrawing_def length_repeat1)
  moreover have "nat (max 0 (rightDashes title t p)) + getVisualWidth title + 5 = boxWidth title t p + 2"
    using contentWidth_title [of title t p] by (simp add: rightDashes_def boxWidth_def)
  ultimately show ?thesis
    using renderedWidth_plain [OF assms]
    by (simp add: topWithTitle_def renderedWidth_append renderedWidth_Cons isBoxDrawing_def)
qed

lemma rendered_row:
  assumes "l \<in> set (boxLines t p)" and "\<forall>c\<in>set l. \<not> isBoxDrawing c"
  shows "renderedWidth (contentRow title t p l) = boxWidth title t p + 2"
proof -
  have "renderedWidth (repeat [32] (nat (max 0 (padding title t p l))))
      = nat (max 0 (padding title t p l))"
    using renderedWidth_repeat [of 32 "nat (max 0 (padding title t p l))"]
    by (simp add: length_repeat1)
  moreover have "nat (max 0 (padding title t p l)) + getVisualWidth l + 3 = boxWidth title t p + 2"
    using contentWidth_line [OF assms(1), of title] by (simp add: padding_def boxWidth_def)
  ultimately show ?thesis
    using renderedWidth_plain [OF assms(2)]
    by (simp add: contentRow_def renderedWidth_append renderedWidth_Cons isBoxDrawing_def)
qed

lemma rendered_bottom: "renderedWidth (bottomBorder title t p) = boxWidth title t p + 2"
proof -
  have "renderedWidth (repeat [9472] (boxWidth title t p)) = boxWidth title t p"
    using renderedWidth_repeat [of 9472 "boxWidth title t p"]
    by (simp add: isBoxDrawing_def length_repeat1)
  then show ?thesis
    by (simp add: bottomBorder_def renderedWidth_append renderedWidth_Cons isBoxDrawing_def)
qed

lemma set_repeat1: "set (repeat [c] n) \<subseteq> {c}"
  by (induction n) (auto simp: repeat_def)

lemma boxLines_no_nl: "l \<in> set (boxLines t p) \<Longrightarrow> 10 \<notin> set l"
  using split_nl_set [of l "wrapText t (Some (min 80 (terminalColumns p - 4))) p"]
  by (auto simp: boxLines_def)

lemma boxOut_no_nl:
  assumes "10 \<notin> set title" and "row \<in> set (boxOut title t p)"
  shows "10 \<notin> set row"
proof -
  from assms(2) consider "row = topWithTitle title t p"
    | l where "l \<in> set (boxLines t p)" "row = contentRow title t p l"
    | "row = bottomBorder title t p"
    by (auto simp: boxOut_def)
  then show ?thesis
  proof cases
    case 1
    with assms(1) show ?thesis
      using set_repeat1 [of 9472 "nat (max 0 (rightDashes title t p))"]
      by (auto simp: topWithTitle_def)
  next
    case 2
    with boxLines_no_nl [OF 2(1)] show ?thesis
      using set_repeat1 [of 32 "nat (max 0 (padding title t p l))"]
      by (auto simp: contentRow_def)
  next
    case 3
    then show ?thesis
      using set_repeat1 [of 9472 "boxWidth title t p"]
      by (auto simp: bottomBorder_def)
  qed
qed

lemma boxMessage_lines:
  assumes "10 \<notin> set title"
  shows "split_nl (boxMessage title t p) = boxOut title t p"
proof -
  have "boxOut title t p \<noteq> []" by (simp add: boxOut_def)
  moreover have "\<forall>row\<in>set (boxOut title t p). 10 \<notin> set row"
    using boxOut_no_nl [OF assms] by blast
  ultimately show ?thesis
    unfolding boxMessage_def by (rule split_join_nl)
qed

lemma repeat1_replicate: "repeat [c] n = replicate n c"
  by (induction n) (simp_all add: repeat_def)

lemma boxOut_width:
  assumes "\<forall>c\<in>set title. \<not> isBoxDrawing c" and "\<forall>c\<in>set t. \<not> isBoxDrawing c"
    and "row \<in> set (boxOut title t p)"
  shows "renderedWidth row = boxWidth title t p + 2"
proof -
  from assms(3) consider "row = topWithTitle title t p"
    | l where "l \<in> set (boxLines t p)" "row = contentRow title t p l"
    | "row = bottomBorder title t p"
    by (auto simp: boxOut_def)
  then show ?thesis
  proof cases
    case 1
    with assms(1) show ?thesis using rendered_top [of title t p] by simp
  next
    case 2
    have "\<forall>c\<in>set l. \<not> isBoxDrawing c" using boxLines_units [OF 2(1)] assms(2) by blast
    with 2 show ?thesis using rendered_row [of l t p title] by simp
  next
    case 3
    then show ?thesis using rendered_bottom [of title t p] by simp
  qed
qed

lemma boxOut_shape:
  "boxOut title t p
     = ([9484, 9472, 32] @ title @ [32] @ replicate (nat (rightDashes title t p)) 9472 @ [9488])
       # map (\<lambda>l. [9474, 32] @ l @ replicate (nat (padding title t p l)) 32 @ [9474]) (boxLines t p)
       @ [[9492] @ replicate (boxWidth title t p) 9472 @ [9496]]"
proof -
  have "max 0 (rightDashes title t p) = rightDashes title t p"
    using rightDashes_nonneg [of title t p] by simp
  moreover have "map (contentRow title t p) (boxLines t p)
      = map (\<lambda>l. [9474, 32] @ l @ replicate (nat (padding title t p l)) 32 @ [9474]) (boxLines t p)"
  proof (rule map_cong [OF refl])
    fix l assume "l \<in> set (boxLines t p)"
    then have "max 0 (padding title t p l) = padding title t p l"
      using padding_nonneg [of l t p title] by simp
    then show "contentRow title t p l
        = [9474, 32] @ l @ replicate (nat (padding title t p l)) 32 @ [9474]"
      by (simp add: contentRow_def repeat1_replicate)
  qed
  ultimately show ?thesis
    by (simp add: boxOut_def topWithTitle_def bottomBorder_def repeat1_replicate)
qed

text \<open>
  Claim C10, as the code has it. The lines of the string \<open>boxMessage\<close> returns are the
  top border with the embedded title, one padded row for each wrapped line of the text,
  and the bottom border, whenever the title holds no line feed. When moreover neither the
  title nor the text holds a box-drawing glyph of its own, every one of these lines
  renders to the same width, the computed box width plus 2, a box-drawing glyph counted
  as one column and every other code unit as \<open>getVisualWidth\<close> counts it. For every title and
  every text the dash count of the top border and the padding of every content row are
  at least 1, so \<open>Math.max(0, ...)\<close> never cuts them, also when the title is wider than
  every wrapped line.
\<close>

theorem boxMessage_rectangular_C10:
  "1 \<le> rightDashes title t p
   \<and> (\<forall>l\<in>set (boxLines t p). 1 \<le> padding title t p l)
   \<and> (10 \<notin> set title \<longrightarrow>
        split_nl (boxMessage title t p)
          = ([9484, 9472, 32] @ title @ [32] @ replicate (nat (rightDashes title t p)) 9472 @ [9488])
            # map (\<lambda>l. [9474, 32] @ l @ replicate (nat (padding title t p l)) 32 @ [9474])
                (boxLines t p)
            @ [[9492] @ replicate (boxWidth title t p) 9472 @ [9496]]
        \<and> length (split_nl (boxMessage title t p)) = length (boxLines t p) + 2)
   \<and> (10 \<notin> set title \<and> (\<forall>c\<in>set title. \<not> isBoxDrawing c) \<and> (\<forall>c\<in>set t. \<not> isBoxDrawing c) \<longrightarrow>
        (\<forall>line\<in>set (split_nl (boxMessage title t p)).
            renderedWidth line = boxWidth title t p + 2))"
proof -
  have d: "1 \<le> rightDashes title t p"
    using contentWidth_title [of title t p] by (simp add: rightDashes_def boxWidth_def)
  have pd: "\<forall>l\<in>set (boxLines t p). 1 \<le> padding title t p l"
    using contentWidth_line [of _ t p title] by (auto simp: padding_def boxWidth_def)
  have sh: "10 \<notin> set title \<longrightarrow>
        split_nl (boxMessage title t p)
          = ([9484, 9472, 32] @ title @ [32] @ replicate (nat (rightDashes title t p)) 9472 @ [9488])
            # map (\<lambda>l. [9474, 32] @ l @ replicate (nat (padding title t p l)) 32 @ [9474])
                (boxLines t p)
            @ [[9492] @ replicate (boxWidth title t p) 9472 @ [9496]]
        \<and> length (split_nl (boxMessage title t p)) = length (boxLines t p) + 2"
  proof
    assume nl: "10 \<notin> set title"
    have "length (boxOut title t p) = length (boxLines t p) + 2" by (simp add: boxOut_def)
    then show "split_nl (boxMessage title t p)
          = ([9484, 9472, 32] @ title @ [32] @ replicate (nat (rightDashes title t p)) 9472 @ [9488])
            # map (\<lambda>l. [9474, 32] @ l @ replicate (nat (padding title t p l)) 32 @ [9474])
                (boxLines t p)
            @ [[9492] @ replicate (boxWidth title t p) 9472 @ [9496]]
        \<and> length (split_nl (boxMessage title t p)) = length (boxLines t p) + 2"
      using boxMessage_lines [OF nl, of t p] boxOut_shape [of title t p] by simp
  qed
  have wd: "10 \<notin> set title \<and> (\<forall>c\<in>set title. \<not> isBoxDrawing c) \<and> (\<forall>c\<in>set t. \<not> isBoxDrawing c) \<longrightarrow>
        (\<forall>line\<in>set (split_nl (boxMessage title t p)).
            renderedWidth line = boxWidth title t p + 2)"
  proof (intro impI ballI)
    fix line
    assume h: "10 \<notin> set title \<and> (\<forall>c\<in>set title. \<not> isBoxDrawing c) \<and> (\<forall>c\<in>set t. \<not> isBoxDrawing c)"
      and line: "line \<in> set (split_nl (boxMessage title t p))"
    from h have nl: "10 \<notin> set title" by simp
    from line have "line \<in> set (boxOut title t p)" using boxMessage_lines [OF nl, of t p] by simp
    with h show "renderedWidth line = boxWidth title t p + 2"
      by (intro boxOut_width) simp_all
  qed
  from d pd sh wd show ?thesis by blast
qed

theorem boxMessage_rectangular_C10_witness:
  "10 \<notin> set (js ''A long title'')
   \<and> list_all (\<lambda>c. \<not> isBoxDrawing c) (js ''A long title'')
   \<and> list_all (\<lambda>c. \<not> isBoxDrawing c) (js ''hi'')
   \<and> boxLines (js ''hi'') None = [js ''hi'']
   \<and> boxWidth (js ''A long title'') (js ''hi'') None = 16
   \<and> rightDashes (js ''A long title'') (js ''hi'') None = 1
   \<and> padding (js ''A long title'') (js ''hi'') None (js ''hi'') = 13
   \<and> split_nl (boxMessage (js ''A long title'') (js ''hi'') None)
      = [[9484, 9472, 32] @ js ''A long title'' @ [32, 9472, 9488],
         [9474, 32] @ js ''hi'' @ replicate 13 32 @ [9474],
         9492 # replicate 16 9472 @ [9496]]
   \<and> list_all (\<lambda>line. renderedWidth line = 18)
        (split_nl (boxMessage (js ''A long title'') (js ''hi'') None))"
proof -
  have l: "boxLines (js ''hi'') None = [js ''hi'']"
    by (simp add: boxLines_def js_simps wrapText_def wrapLimit_def terminalColumns_def
        isHighSurrogate_def getVisualWidth_Nil getVisualWidth_Cons)
  have t: "getVisualWidth (js ''A long title'') = 12" and h: "getVisualWidth (js ''hi'') = 2"
    by (simp_all add: js_simps getVisualWidth_Nil getVisualWidth_Cons)
  have w: "boxWidth (js ''A long title'') (js ''hi'') None = 16"
    by (simp add: boxWidth_def contentWidth_def l t h)
  have d: "rightDashes (js ''A long title'') (js ''hi'') None = 1"
    and pd: "padding (js ''A long title'') (js ''hi'') None (js ''hi'') = 13"
    by (simp_all add: rightDashes_def padding_def w t h)
  have nl: "10 \<notin> set (js ''A long title'')"
    by (simp add: js_simps)
  have nb: "list_all (\<lambda>c. \<not> isBoxDrawing c) (js ''A long title'')"
    "list_all (\<lambda>c. \<not> isBoxDrawing c) (js ''hi'')"
    by (simp_all add: js_simps isBoxDrawing_def)
  have r: "split_nl (boxMessage (js ''A long title'') (js ''hi'') None)
      = [[9484, 9472, 32] @ js ''A long title'' @ [32, 9472, 9488],
         [9474, 32] @ js ''hi'' @ replicate 13 32 @ [9474],
         9492 # replicate 16 9472 @ [9496]]"
    using boxMessage_rectangular_C10 [of "js ''A long title''" "js ''hi''" None] nl
    by (simp add: l w d pd)
  have a: "list_all (\<lambda>line. renderedWidth line = 18)
        (split_nl (boxMessage (js ''A long title'') (js ''hi'') None))"
    using boxMessage_rectangular_C10 [of "js ''A long title''" "js ''hi''" None] nl nb w
    by (simp add: list_all_iff)
  from nl nb l w d pd r a show ?thesis by blast
qed

text \<open>
  Claim C10 as written holds for every title and every text. A title with a line feed
  breaks the top border into two lines, and a box-drawing glyph in the title or in the
  text is counted as two columns by \<open>getVisualWidth\<close> where the measure of the claim counts
  one: the widths of the lines of the returned string, for the title \<open>a\<close>, line feed, \<open>b\<close>,
  for the title U+2500, and for the text U+2500, each time not all the same.
\<close>

theorem boxMessage_rectangular_C10_counterexample:
  "map renderedWidth (split_nl (boxMessage [97, 10, 98] (js ''hi'') None)) = [4, 4, 9, 9]
   \<and> boxWidth [97, 10, 98] (js ''hi'') None + 2 = 9
   \<and> map renderedWidth (split_nl (boxMessage [9472] (js ''hi'') None)) = [7, 8, 8]
   \<and> boxWidth [9472] (js ''hi'') None + 2 = 8
   \<and> map renderedWidth (split_nl (boxMessage (js ''t'') [9472] None)) = [7, 6, 7]
   \<and> boxWidth (js ''t'') [9472] None + 2 = 7"
proof -
  have l: "boxLines [104, 105] None = [[104, 105]]"
    by (simp add: boxLines_def wrapText_def wrapLimit_def terminalColumns_def
        isHighSurrogate_def getVisualWidth_Nil getVisualWidth_Cons)
  have l2: "boxLines [9472] None = [[9472]]"
    by (simp add: boxLines_def wrapText_def wrapLimit_def terminalColumns_def
        isHighSurrogate_def getVisualWidth_Nil getVisualWidth_Cons)
  have g: "getVisualWidth [97, 10, 98] = 3" "getVisualWidth [9472] = 2"
    "getVisualWidth [104, 105] = 2" "getVisualWidth [116] = 1"
    by (simp_all add: js_simps getVisualWidth_Nil getVisualWidth_Cons)
  have w: "boxWidth [97, 10, 98] [104, 105] None = 7" "boxWidth [9472] [104, 105] None = 6"
    "boxWidth [116] [9472] None = 5"
    by (simp_all add: boxWidth_def contentWidth_def l l2 g)
  have rep: "\<And>x::nat. replicate 2 x = [x, x]" "\<And>x::nat. replicate 3 x = [x, x, x]"
    "\<And>x::nat. replicate 4 x = [x, x, x, x]" "\<And>x::nat. replicate 5 x = [x, x, x, x, x]"
    "\<And>x::nat. replicate 6 x = [x, x, x, x, x, x]" "\<And>x::nat. replicate 7 x = [x, x, x, x, x, x, x]"
    by (simp_all add: eval_nat_numeral)
  have a: "map renderedWidth (split_nl (boxMessage [97, 10, 98] [104, 105] None)) = [4, 4, 9, 9]"
    by (simp add: boxMessage_def boxOut_def topWithTitle_def contentRow_def bottomBorder_def
        rightDashes_def padding_def l w g repeat1_replicate renderedWidth_def isBoxDrawing_def
        js_simps rep)
  have b: "map renderedWidth (split_nl (boxMessage [9472] [104, 105] None)) = [7, 8, 8]"
    by (simp add: boxMessage_def boxOut_def topWithTitle_def contentRow_def bottomBorder_def
        rightDashes_def padding_def l w g repeat1_replicate renderedWidth_def isBoxDrawing_def
        js_simps rep)
  have c: "map renderedWidth (split_nl (boxMessage [116] [9472] None)) = [7, 6, 7]"
    by (simp add: boxMessage_def boxOut_def topWithTitle_def contentRow_def bottomBorder_def
        rightDashes_def padding_def l2 w g repeat1_replicate renderedWidth_def isBoxDrawing_def
        js_simps rep)
  from a b c w show ?thesis by (simp add: js_simps)
qed

section \<open>Proofs: the injector and the editor where they succeed\<close>

lemma startsWith_iff: "startsWith s p \<longleftrightarrow> (\<exists>b. s = p @ b)"
  by (induction s p rule: startsWith.induct) auto

lemma includes_js_iff: "includes_js s sub \<longleftrightarrow> (\<exists>a b. s = a @ sub @ b)"
proof (induction s)
  case Nil
  show ?case by auto
next
  case (Cons c cs)
  show ?case
  proof
    assume "includes_js (c # cs) sub"
    then consider "startsWith (c # cs) sub" | "includes_js cs sub" by auto
    then show "\<exists>a b. c # cs = a @ sub @ b"
    proof cases
      case 1
      then obtain b where "c # cs = sub @ b" by (auto simp: startsWith_iff)
      then have "c # cs = [] @ sub @ b" by simp
      then show ?thesis by blast
    next
      case 2
      with Cons.IH obtain a b where "cs = a @ sub @ b" by auto
      then have "c # cs = (c # a) @ sub @ b" by simp
      then show ?thesis by blast
    qed
  next
    assume "\<exists>a b. c # cs = a @ sub @ b"
    then obtain a b where ab: "c # cs = a @ sub @ b" by blast
    show "includes_js (c # cs) sub"
    proof (cases a)
      case Nil
      with ab have "startsWith (c # cs) sub" by (auto simp: startsWith_iff)
      then show ?thesis by simp
    next
      case (Cons a0 as)
      with ab have "cs = as @ sub @ b" by simp
      with Cons.IH have "includes_js cs sub" by blast
      then show ?thesis by simp
    qed
  qed
qed

lemma findIndex_Some:
  "findIndex P ls = Some i \<longleftrightarrow> i < length ls \<and> P (ls ! i) \<and> (\<forall>j<i. \<not> P (ls ! j))"
proof (induction ls arbitrary: i)
  case Nil
  show ?case by simp
next
  case (Cons l ls)
  show ?case
  proof (cases "P l")
    case True
    then show ?thesis by (cases i) auto
  next
    case False
    show ?thesis
    proof (cases i)
      case 0
      with False show ?thesis by auto
    next
      case (Suc k)
      have "(\<forall>j<Suc k. \<not> P ((l # ls) ! j)) \<longleftrightarrow> (\<forall>j<k. \<not> P (ls ! j))"
        using False by (auto simp: less_Suc_eq_0_disj)
      with False Suc Cons.IH [of k] show ?thesis by auto
    qed
  qed
qed

lemma findIndex_None: "findIndex P ls = None \<longleftrightarrow> (\<forall>l\<in>set ls. \<not> P l)"
  by (induction ls) auto


lemma injectByContext_hit:
  assumes "contextLine item = Some ctx" and "ctx \<noteq> []" and "i < length ls"
    and "\<exists>a b. ls ! i = a @ trim ctx @ b"
    and "\<forall>j<i. \<not> (\<exists>a b. ls ! j = a @ trim ctx @ b)"
  shows "injectByContext item ls todo
         = Some (take i ls @ (takeWhile isSpace (ls ! i) @ todo) # drop i ls)"
proof -
  have "findIndex (\<lambda>l. includes_js l (trim ctx)) ls = Some i"
    using assms(3-5) by (simp only: findIndex_Some includes_js_iff)
  with assms(1,2) show ?thesis by (simp add: injectByContext_def splice_def)
qed

lemma injectByContext_nomatch:
  assumes "contextLine item = Some ctx" and "\<forall>l\<in>set ls. \<not> (\<exists>a b. l = a @ trim ctx @ b)"
  shows "injectByContext item ls todo = None"
proof -
  have "\<forall>l\<in>set ls. \<not> includes_js l (trim ctx)"
    using assms(2) by (simp only: includes_js_iff)
  then have "findIndex (\<lambda>l. includes_js l (trim ctx)) ls = None"
    by (simp only: findIndex_None)
  with assms(1) show ?thesis by (simp add: injectByContext_def)
qed

lemma injectByContext_miss:
  assumes "contextLine item = None \<or> contextLine item = Some []
     \<or> (\<exists>ctx. contextLine item = Some ctx \<and> (\<forall>l\<in>set ls. \<not> (\<exists>a b. l = a @ trim ctx @ b)))"
  shows "injectByContext item ls todo = None"
  using assms
proof (elim disjE exE conjE)
  assume "contextLine item = None"
  then show ?thesis by (simp add: injectByContext_def)
next
  assume "contextLine item = Some []"
  then show ?thesis by (simp add: injectByContext_def)
next
  fix ctx
  assume "contextLine item = Some ctx" "\<forall>l\<in>set ls. \<not> (\<exists>a b. l = a @ trim ctx @ b)"
  then show ?thesis by (rule injectByContext_nomatch)
qed

lemma parseInt_Nil: "parseInt [] = None"
  by (simp add: parseInt_def)

lemma injectByLine_hit:
  assumes "lineNumber item = Some num" and "parseInt num = Some n" and "1 \<le> n"
    and "n \<le> int (length ls)" and "ls ! nat (n - 1) \<noteq> []"
  shows "injectByLine item ls todo = Some (take (nat (n - 1)) ls @ todo # drop (nat (n - 1)) ls)"
proof -
  from assms(2) have "num \<noteq> []" using parseInt_Nil by auto
  with assms show ?thesis by (simp add: injectByLine_def lineAt_def splice_def)
qed

lemma injectByLine_miss:
  assumes "lineNumber item = None
     \<or> (\<exists>num. lineNumber item = Some num \<and> (parseInt num = None
          \<or> (\<exists>n. parseInt num = Some n \<and> (n < 1 \<or> int (length ls) < n \<or> ls ! nat (n - 1) = []))))"
  shows "injectByLine item ls todo = None"
  using assms
proof (elim disjE exE conjE)
  assume "lineNumber item = None"
  then show ?thesis by (simp add: injectByLine_def)
next
  fix num assume "lineNumber item = Some num" "parseInt num = None"
  then show ?thesis by (simp add: injectByLine_def)
next
  fix num n assume "lineNumber item = Some num" "parseInt num = Some n" "n < 1"
  then show ?thesis by (simp add: injectByLine_def lineAt_def)
next
  fix num n assume "lineNumber item = Some num" "parseInt num = Some n" "int (length ls) < n"
  then show ?thesis by (simp add: injectByLine_def lineAt_def)
next
  fix num n assume "lineNumber item = Some num" "parseInt num = Some n" "ls ! nat (n - 1) = []"
  then show ?thesis by (simp add: injectByLine_def lineAt_def)
qed

text \<open>
  The priority order of the injector on the lines of a file. A finding whose context
  string is not empty and whose trimmed context occurs in some line is inserted before
  the first such line, after a copy of that line's leading white space. Otherwise a
  finding whose line number parses to n, with a line at position n that is not empty, is
  inserted before that line with no indentation. Otherwise nothing is inserted and
  \<open>injected\<close> stays false; this includes a line number that points at an empty line.
\<close>

theorem injectTodo_priority:
  "(contextLine item = Some ctx \<and> ctx \<noteq> [] \<and> i < length ls
      \<and> (\<exists>a b. ls ! i = a @ trim ctx @ b)
      \<and> (\<forall>j<i. \<not> (\<exists>a b. ls ! j = a @ trim ctx @ b)) \<longrightarrow>
      injectTodo item ls todo
        = (take i ls @ (takeWhile isSpace (ls ! i) @ todo) # drop i ls, True))
   \<and> ((contextLine item = None \<or> contextLine item = Some []
         \<or> (\<exists>c. contextLine item = Some c \<and> (\<forall>l\<in>set ls. \<not> (\<exists>a b. l = a @ trim c @ b))))
       \<and> lineNumber item = Some num \<and> parseInt num = Some n \<and> 1 \<le> n
       \<and> n \<le> int (length ls) \<and> ls ! nat (n - 1) \<noteq> [] \<longrightarrow>
      injectTodo item ls todo = (take (nat (n - 1)) ls @ todo # drop (nat (n - 1)) ls, True))
   \<and> ((contextLine item = None \<or> contextLine item = Some []
         \<or> (\<exists>c. contextLine item = Some c \<and> (\<forall>l\<in>set ls. \<not> (\<exists>a b. l = a @ trim c @ b))))
       \<and> (lineNumber item = None
           \<or> (\<exists>m. lineNumber item = Some m \<and> (parseInt m = None
                \<or> (\<exists>k. parseInt m = Some k \<and> (k < 1 \<or> int (length ls) < k \<or> ls ! nat (k - 1) = []))))) \<longrightarrow>
      injectTodo item ls todo = (ls, False))"
proof (intro conjI impI)
  assume "contextLine item = Some ctx \<and> ctx \<noteq> [] \<and> i < length ls
      \<and> (\<exists>a b. ls ! i = a @ trim ctx @ b)
      \<and> (\<forall>j<i. \<not> (\<exists>a b. ls ! j = a @ trim ctx @ b))"
  then have "injectByContext item ls todo
      = Some (take i ls @ (takeWhile isSpace (ls ! i) @ todo) # drop i ls)"
    by (intro injectByContext_hit) blast+
  then show "injectTodo item ls todo
      = (take i ls @ (takeWhile isSpace (ls ! i) @ todo) # drop i ls, True)"
    by (simp add: injectTodo_def)
next
  assume h: "(contextLine item = None \<or> contextLine item = Some []
         \<or> (\<exists>c. contextLine item = Some c \<and> (\<forall>l\<in>set ls. \<not> (\<exists>a b. l = a @ trim c @ b))))
       \<and> lineNumber item = Some num \<and> parseInt num = Some n \<and> 1 \<le> n
       \<and> n \<le> int (length ls) \<and> ls ! nat (n - 1) \<noteq> []"
  then have c: "injectByContext item ls todo = None"
    by (intro injectByContext_miss) blast
  from h have "injectByLine item ls todo
      = Some (take (nat (n - 1)) ls @ todo # drop (nat (n - 1)) ls)"
    by (intro injectByLine_hit) blast+
  with c show "injectTodo item ls todo
      = (take (nat (n - 1)) ls @ todo # drop (nat (n - 1)) ls, True)"
    by (simp add: injectTodo_def)
next
  assume h: "(contextLine item = None \<or> contextLine item = Some []
         \<or> (\<exists>c. contextLine item = Some c \<and> (\<forall>l\<in>set ls. \<not> (\<exists>a b. l = a @ trim c @ b))))
       \<and> (lineNumber item = None
           \<or> (\<exists>m. lineNumber item = Some m \<and> (parseInt m = None
                \<or> (\<exists>k. parseInt m = Some k \<and> (k < 1 \<or> int (length ls) < k \<or> ls ! nat (k - 1) = [])))))"
  then have c: "injectByContext item ls todo = None"
    by (intro injectByContext_miss) blast
  from h have "injectByLine item ls todo = None"
    by (intro injectByLine_miss) blast
  with c show "injectTodo item ls todo = (ls, False)"
    by (simp add: injectTodo_def)
qed


theorem injectTodo_priority_witness:
  "injectTodo \<lparr>message = js ''m'', filePath = js ''a.ts'', lineNumber = None, contextLine = Some (js '' return 1; '')\<rparr>
      [js ''function f() {'', js ''  return 1;'', js ''}''] (js ''// TODO: [AI] m'')
     = ([js ''function f() {'', js ''  '' @ js ''// TODO: [AI] m'', js ''  return 1;'', js ''}''], True)
   \<and> injectTodo \<lparr>message = js ''m'', filePath = js ''a.ts'', lineNumber = Some (js ''2''), contextLine = Some (js ''nothing'')\<rparr>
      [js ''function f() {'', js ''  return 1;'', js ''}''] (js ''// TODO: [AI] m'')
     = ([js ''function f() {'', js ''// TODO: [AI] m'', js ''  return 1;'', js ''}''], True)
   \<and> injectTodo \<lparr>message = js ''m'', filePath = js ''a.ts'', lineNumber = Some (js ''7''), contextLine = None\<rparr>
      [js ''function f() {'', js ''  return 1;'', js ''}''] (js ''// TODO: [AI] m'')
     = ([js ''function f() {'', js ''  return 1;'', js ''}''], False)"
proof -
  let ?ls = "[js ''function f() {'', js ''  return 1;'', js ''}'']"
  have t1: "trim (js '' return 1; '') = js ''return 1;''"
    by (simp add: trim_def js_simps isSpace_def)
  have i1: "includes_js (?ls ! 1) (trim (js '' return 1; ''))"
    unfolding t1 by (simp add: js_simps)
  have i0: "\<not> includes_js (?ls ! 0) (trim (js '' return 1; ''))"
    unfolding t1 by (simp add: js_simps)
  have a1: "\<exists>a b. ?ls ! 1 = a @ trim (js '' return 1; '') @ b"
    using i1 unfolding includes_js_iff .
  have a0: "\<not> (\<exists>a b. ?ls ! 0 = a @ trim (js '' return 1; '') @ b)"
    using i0 unfolding includes_js_iff .
  have a2: "\<forall>j<1. \<not> (\<exists>a b. ?ls ! j = a @ trim (js '' return 1; '') @ b)"
  proof (intro allI impI)
    fix j :: nat assume "j < 1"
    then have "j = 0" by simp
    with a0 show "\<not> (\<exists>a b. ?ls ! j = a @ trim (js '' return 1; '') @ b)" by simp
  qed
  have ind: "takeWhile isSpace (js ''  return 1;'') = js ''  ''" "js '' return 1; '' \<noteq> []"
    by (simp_all add: js_simps isSpace_def)
  have c1: "injectTodo \<lparr>message = js ''m'', filePath = js ''a.ts'', lineNumber = None, contextLine = Some (js '' return 1; '')\<rparr> ?ls (js ''// TODO: [AI] m'')
     = ([js ''function f() {'', js ''  '' @ js ''// TODO: [AI] m'', js ''  return 1;'', js ''}''], True)"
    using injectTodo_priority [of "\<lparr>message = js ''m'', filePath = js ''a.ts'', lineNumber = None, contextLine = Some (js '' return 1; '')\<rparr>" "js '' return 1; ''" 1 ?ls "js ''// TODO: [AI] m''" "[]" 0] a1 a2
    by (simp add: ind)
  have "\<forall>l\<in>set ?ls. \<not> includes_js l (trim (js ''nothing''))"
    by (simp add: trim_def js_simps isSpace_def)
  then have n: "\<forall>l\<in>set ?ls. \<not> (\<exists>a b. l = a @ trim (js ''nothing'') @ b)"
    by (simp only: includes_js_iff)
  have p2: "parseInt (js ''2'') = Some 2" and p7: "parseInt (js ''7'') = Some 7"
    by (simp_all add: parseInt_def js_simps isSpace_def isDigit_def digitValue_def)
  have ne: "?ls ! nat (2 - 1) \<noteq> []" by (simp add: js_simps)
  have c2: "injectTodo \<lparr>message = js ''m'', filePath = js ''a.ts'', lineNumber = Some (js ''2''), contextLine = Some (js ''nothing'')\<rparr> ?ls (js ''// TODO: [AI] m'')
     = ([js ''function f() {'', js ''// TODO: [AI] m'', js ''  return 1;'', js ''}''], True)"
    using injectTodo_priority [of "\<lparr>message = js ''m'', filePath = js ''a.ts'', lineNumber = Some (js ''2''), contextLine = Some (js ''nothing'')\<rparr>" "[]" 0 ?ls "js ''// TODO: [AI] m''" "js ''2''" 2] n p2 ne
    by simp
  have c3: "injectTodo \<lparr>message = js ''m'', filePath = js ''a.ts'', lineNumber = Some (js ''7''), contextLine = None\<rparr> ?ls (js ''// TODO: [AI] m'') = (?ls, False)"
    using injectTodo_priority [of "\<lparr>message = js ''m'', filePath = js ''a.ts'', lineNumber = Some (js ''7''), contextLine = None\<rparr>" "[]" 0 ?ls "js ''// TODO: [AI] m''" "[]" 0] p7
    by simp
  from c1 c2 c3 show ?thesis by blast
qed

text \<open>
  The paths of \<open>editCommitMessage\<close> that do clean up. When the first write succeeds, the
  editor returns and leaves at the temporary path a file that can be read and removed, or
  nothing, then the temporary path is gone after the call and nothing else differs from
  what the editor left; the result is the trimmed text of the file, or the initial
  message when the editor removed the file.
\<close>

theorem editCommitMessage_cleanup:
  "writeFileSync tree0 tmp msg = Some written \<and> spawn written tmp = Some edited
     \<and> node edited tmp \<noteq> Some Unreadable \<and> removable edited tmp \<longrightarrow>
     (\<exists>m t'. editCommitMessage spawn tmp tree0 msg = Some (m, t')
        \<and> node t' tmp = None
        \<and> (\<forall>p. p \<noteq> tmp \<longrightarrow> node t' p = node edited p)
        \<and> writable t' = writable edited \<and> removable t' = removable edited
        \<and> (\<forall>newText. node edited tmp = Some (RegularFile newText) \<longrightarrow> m = trim newText)
        \<and> (node edited tmp = None \<longrightarrow> m = msg))"
  by (auto simp: editCommitMessage_def existsSync_def readFileSync_def unlinkSync_def
      split: option.splits fnode.splits)

theorem editCommitMessage_cleanup_witness:
  "editCommitMessage (\<lambda>t p. Some (t\<lparr>node := (node t)(p \<mapsto> RegularFile (js '' fix: spelling '' @ [10]))\<rparr>))
      (js ''/repo/.COMMIT_EDITMSG_TEMP'') (plainTree Map.empty) (js ''fix: typo'')
   = Some (js ''fix: spelling'', plainTree Map.empty)"
proof -
  let ?sp = "\<lambda>(t::filesystem) p. Some (t\<lparr>node := (node t)(p \<mapsto> RegularFile (js '' fix: spelling '' @ [10]))\<rparr>)"
  let ?tmp = "js ''/repo/.COMMIT_EDITMSG_TEMP''"
  let ?written = "plainTree [?tmp \<mapsto> RegularFile (js ''fix: typo'')]"
  let ?edited = "plainTree [?tmp \<mapsto> RegularFile (js '' fix: spelling '' @ [10])]"
  have tr: "trim (js '' fix: spelling '' @ [10]) = js ''fix: spelling''"
    by (simp add: trim_def js_simps isSpace_def)
  have w: "writeFileSync (plainTree Map.empty) ?tmp (js ''fix: typo'') = Some ?written"
    by (simp add: fs_simps)
  have e: "?sp ?written ?tmp = Some ?edited"
    by (simp add: fs_simps)
  have ok: "node ?edited ?tmp \<noteq> Some Unreadable" "removable ?edited ?tmp"
    by (simp_all add: fs_simps)
  from editCommitMessage_cleanup [of "plainTree Map.empty" ?tmp "js ''fix: typo''" ?written ?sp ?edited]
    w e ok
  obtain m t' where r: "editCommitMessage ?sp ?tmp (plainTree Map.empty) (js ''fix: typo'') = Some (m, t')"
    and gone: "node t' ?tmp = None" and others: "\<forall>p. p \<noteq> ?tmp \<longrightarrow> node t' p = node ?edited p"
    and perms: "writable t' = writable ?edited" "removable t' = removable ?edited"
    and msg: "m = trim (js '' fix: spelling '' @ [10])"
    by (auto simp: fs_simps)
  have "node t' = Map.empty"
  proof (rule ext)
    fix x show "node t' x = None"
      using gone others by (cases "x = ?tmp") (simp_all add: fs_simps)
  qed
  with perms have "t' = plainTree Map.empty"
    by (simp add: fs_simps)
  with r msg tr show ?thesis by simp
qed

text \<open>
  The comment syntax by extension: hash style for Python, block style for style sheets,
  markup style for Markdown, and line style for TypeScript, for an unknown extension and
  also for \<open>.html\<close>, whose own branch returns only for \<open>.md\<close>. The extension is compared in
  lower case.
\<close>

theorem getCommentSyntax_mapping:
  "getCommentSyntax (js ''tool.py'') (js ''m'') = js ''# TODO: [AI] m''
   \<and> getCommentSyntax (js ''site.css'') (js ''m'') = js ''/* TODO: [AI] m */''
   \<and> getCommentSyntax (js ''README.MD'') (js ''m'') = js ''<!-- TODO: [AI] m -->''
   \<and> getCommentSyntax (js ''src/app.ts'') (js ''m'') = js ''// TODO: [AI] m''
   \<and> getCommentSyntax (js ''Makefile'') (js ''m'') = js ''// TODO: [AI] m''
   \<and> getCommentSyntax (js ''index.html'') (js ''m'') = js ''// TODO: [AI] m''"
  by (simp add: getCommentSyntax_def extname_def lastComponent_def toLowerCase_def js_simps)

end
